theory Spec2Isabelle
  imports Complex_Main "HOL-Library.Word"
begin

section \<open>Strings and values of the script\<close>

text \<open>
  A JavaScript string is a sequence of 16-bit code units; \<open>length\<close>, \<open>slice\<close>,
  \<open>trim\<close> and the regular expressions of \<^verbatim>\<open>chat.js\<close> (none has the \<^verbatim>\<open>u\<close> flag) all
  work on code units. \<open>lit\<close> embeds an ASCII literal of the source.
\<close>

type_synonym jsstring = "16 word list"

definition lit :: "string \<Rightarrow> jsstring" where
  "lit cs = map of_char cs"

text \<open>
  The line terminators of ECMAScript (LF, CR, LS, PS): what \<^verbatim>\<open>.\<close> does not match.
\<close>

definition is_LT :: "16 word \<Rightarrow> bool" where
  "is_LT c = (c = 0x0A \<or> c = 0x0D \<or> c = 0x2028 \<or> c = 0x2029)"

text \<open>
  The class \<^verbatim>\<open>\s\<close>, which is also what \<^verbatim>\<open>trim()\<close> strips: WhiteSpace (TAB, VT, FF,
  ZWNBSP and the Unicode space separators) and the line terminators.
\<close>

definition is_space :: "16 word \<Rightarrow> bool" where
  "is_space c =
     (c = 0x09 \<or> c = 0x0A \<or> c = 0x0B \<or> c = 0x0C \<or> c = 0x0D \<or> c = 0x20 \<or> c = 0xA0
      \<or> c = 0x1680 \<or> (0x2000 \<le> c \<and> c \<le> 0x200A) \<or> c = 0x2028 \<or> c = 0x2029
      \<or> c = 0x202F \<or> c = 0x205F \<or> c = 0x3000 \<or> c = 0xFEFF)"

definition trim :: "jsstring \<Rightarrow> jsstring" where
  "trim s = rev (dropWhile is_space (rev (dropWhile is_space s)))"

text \<open>
  Numbers: a finite double is modelled by its value, a rational, with NaN and the two
  infinities apart. The script computes with no number; it converts the global to one
  (where a numeric string is rounded to the nearest double, \<open>double_of\<close> below), compares
  it with a length, cuts a string at it and prints it. In all of these the two zeros act
  alike, and the sign of zero is not modelled.
\<close>

datatype number = NaN | Fin rat | PosInf | NegInf

text \<open>
  The values the script can meet in \<^verbatim>\<open>window.INPUT_LIMIT\<close> and in a parsed JSON body:
  undefined, null, booleans, numbers, strings, and arrays and plain objects of such values
  (data, as a JSON text or a literal of data gives it: no functions, the default
  prototypes). An object is its list of own properties, looked up by key.
\<close>

datatype jsval =
    Undefined
  | Null
  | Bool bool
  | Num number
  | Str jsstring
  | Arr "jsval list"
  | Obj "(jsstring \<times> jsval) list"

datatype jserror = TypeError

text \<open>Truthiness (ToBoolean), which decides \<^verbatim>\<open>||\<close> and \<^verbatim>\<open>!\<close>.\<close>

fun truthy :: "jsval \<Rightarrow> bool" where
  "truthy Undefined = False"
| "truthy Null = False"
| "truthy (Bool b) = b"
| "truthy (Num NaN) = False"
| "truthy (Num (Fin q)) = (q \<noteq> 0)"
| "truthy (Num PosInf) = True"
| "truthy (Num NegInf) = True"
| "truthy (Str s) = (s \<noteq> [])"
| "truthy (Arr xs) = True"
| "truthy (Obj kvs) = True"

text \<open>\<^verbatim>\<open>a || b\<close>\<close>

definition js_or :: "jsval \<Rightarrow> jsval \<Rightarrow> jsval" where
  "js_or a b = (if truthy a then a else b)"

section \<open>Rendering: escapeHTML and liteMarkdown\<close>

text \<open>
  \<^verbatim>\<open>.replace(/[&<>]/g, c => ({'&':'&amp;','<':'&lt;','>':'&gt;'}[c]))\<close>:
  every code unit of the class is replaced by its entity, the others are kept.
\<close>

definition escape_unit :: "16 word \<Rightarrow> jsstring" where
  "escape_unit c =
     (if c = 0x26 then lit ''&amp;''
      else if c = 0x3C then lit ''&lt;''
      else if c = 0x3E then lit ''&gt;''
      else [c])"

definition escape_text :: "jsstring \<Rightarrow> jsstring" where
  "escape_text s = concat (map escape_unit s)"

text \<open>
  \<^verbatim>\<open>function escapeHTML(s) { return (s || "").replace(...) }\<close>. A truthy value that is not
  a string has no \<^verbatim>\<open>replace\<close> method, and the call throws a TypeError.
\<close>

definition escapeHTML :: "jsval \<Rightarrow> jserror + jsstring" where
  "escapeHTML s =
     (case js_or s (Str []) of
        Str t \<Rightarrow> Inr (escape_text t)
      | _ \<Rightarrow> Inl TypeError)"

text \<open>
  \<^verbatim>\<open>/\*\*(.+?)\*\*/\<close> tried at the head of a string. After the opening \<^verbatim>\<open>**\<close> the lazy
  group takes one code unit that is no line terminator, and then stops at the first place
  where \<^verbatim>\<open>**\<close> follows; where it does not, it takes one more code unit, and fails on a
  line terminator or at the end. \<open>bold_close acc t\<close> is the group having taken \<open>acc\<close>
  with \<open>t\<close> left; a match is the group and what is left after the closing \<^verbatim>\<open>**\<close>.
\<close>

fun bold_close :: "jsstring \<Rightarrow> jsstring \<Rightarrow> (jsstring \<times> jsstring) option" where
  "bold_close acc [] = None"
| "bold_close acc (c # t) =
     (if c = 0x2A \<and> (case t of d # _ \<Rightarrow> d = 0x2A | [] \<Rightarrow> False) then Some (acc, tl t)
      else if is_LT c then None
      else bold_close (acc @ [c]) t)"

fun bold_match :: "jsstring \<Rightarrow> (jsstring \<times> jsstring) option" where
  "bold_match (a # b # c # t) =
     (if a = 0x2A \<and> b = 0x2A \<and> \<not> is_LT c then bold_close [c] t else None)"
| "bold_match _ = None"

text \<open>
  \<^verbatim>\<open>out.replace(/\*\*(.+?)\*\*/g, "<strong>$1</strong>")\<close>: the global replace scans from
  the left; where the expression matches, the match is replaced and the scan goes on after
  it; where it does not, the code unit is kept and the scan moves one on.
\<close>

function bold :: "jsstring \<Rightarrow> jsstring" where
  "bold [] = []"
| "bold (c # t) =
     (case bold_match (c # t) of
        Some (g, rest) \<Rightarrow> lit ''<strong>'' @ g @ lit ''</strong>'' @ bold rest
      | None \<Rightarrow> c # bold t)"
  by pat_completeness auto
termination
proof (relation "measure length")
  show "wf (measure (length :: jsstring \<Rightarrow> nat))" by simp
next
  fix c :: "16 word" and t :: jsstring and x2 :: "jsstring \<times> jsstring" and g rest :: jsstring
  assume m: "bold_match (c # t) = Some x2" and x: "(g, rest) = x2"
  have close: "bold_close acc u = Some (g', r') \<Longrightarrow> length r' < length u" for acc u g' r'
  proof (induction u arbitrary: acc)
    case Nil
    then show ?case by simp
  next
    case (Cons d u)
    show ?case
    proof (cases "d = 0x2A \<and> (case u of e # _ \<Rightarrow> e = 0x2A | [] \<Rightarrow> False)")
      case True
      with Cons.prems have "r' = tl u" by simp
      then show ?thesis by (cases u) simp_all
    next
      case False
      with Cons.prems have "bold_close (acc @ [d]) u = Some (g', r')"
        by (simp split: if_splits)
      from Cons.IH [OF this] show ?thesis by simp
    qed
  qed
  from m x have "bold_match (c # t) = Some (g, rest)" by simp
  then have "length rest < length (c # t)"
    by (cases "c # t" rule: bold_match.cases) (auto split: if_splits dest!: close)
  then show "(rest, c # t) \<in> measure length" by simp
next
  fix c :: "16 word" and t :: jsstring
  show "(t, c # t) \<in> measure length" by simp
qed

text \<open>
  \<^verbatim>\<open>/(^|\n)[*-]\s+(.+)/\<close>. \<open>dot_plus\<close> is the greedy \<^verbatim>\<open>(.+)\<close> that ends the expression: it
  needs one code unit that is no line terminator and takes all that follow up to the next
  line terminator. \<open>ws_plus\<close> is \<^verbatim>\<open>\s+\<close> after its first code unit: greedy, it takes one
  more white space where it can, and gives it back (trying \<^verbatim>\<open>(.+)\<close> here) where the rest
  of the expression then fails.
\<close>

definition dot_plus :: "jsstring \<Rightarrow> (jsstring \<times> jsstring) option" where
  "dot_plus s =
     (case s of
        [] \<Rightarrow> None
      | c # _ \<Rightarrow> if is_LT c then None
                 else Some (takeWhile (\<lambda>x. \<not> is_LT x) s, dropWhile (\<lambda>x. \<not> is_LT x) s))"

fun ws_plus :: "jsstring \<Rightarrow> (jsstring \<times> jsstring) option" where
  "ws_plus [] = None"
| "ws_plus (c # t) =
     (if is_space c
      then (case ws_plus t of Some r \<Rightarrow> Some r | None \<Rightarrow> dot_plus (c # t))
      else dot_plus (c # t))"

text \<open>\<^verbatim>\<open>[*-]\s+(.+)\<close> at the head of a string: the second group and what is left.\<close>

fun item_match :: "jsstring \<Rightarrow> (jsstring \<times> jsstring) option" where
  "item_match (m # c # t) =
     (if (m = 0x2A \<or> m = 0x2D) \<and> is_space c then ws_plus t else None)"
| "item_match _ = None"

text \<open>
  The whole expression at a position of the subject: without the \<^verbatim>\<open>m\<close> flag \<^verbatim>\<open>^\<close>
  holds at position 0 only (\<open>at_start\<close>); the second alternative takes a line feed. The
  result is the first group, the second group and what is left after the match.
\<close>

definition bullet_match :: "bool \<Rightarrow> jsstring \<Rightarrow> (jsstring \<times> jsstring \<times> jsstring) option" where
  "bullet_match at_start s =
     (case (if at_start then item_match s else None) of
        Some (p2, rest) \<Rightarrow> Some ([], p2, rest)
      | None \<Rightarrow>
          (case s of
             c # t \<Rightarrow>
               if c = 0x0A
               then (case item_match t of
                       Some (p2, rest) \<Rightarrow> Some ([c], p2, rest)
                     | None \<Rightarrow> None)
               else None
           | [] \<Rightarrow> None))"

text \<open>
  \<^verbatim>\<open>out.replace(/(^|\n)[*-]\s+(.+)/g, (_m, p1, p2) => `${p1}\<bullet> ${p2}`)\<close>: the bullet is
  the one code unit U+2022. A match is never empty, so the scan after it is no longer at
  position 0.
\<close>

function bullets_from :: "bool \<Rightarrow> jsstring \<Rightarrow> jsstring" where
  "bullets_from at_start s =
     (case bullet_match at_start s of
        Some (p1, p2, rest) \<Rightarrow> p1 @ [0x2022, 0x20] @ p2 @ bullets_from False rest
      | None \<Rightarrow> (case s of [] \<Rightarrow> [] | c # t \<Rightarrow> c # bullets_from False t))"
  by pat_completeness auto
termination
proof (relation "measure (\<lambda>(b, s). length s)")
  show "wf (measure (\<lambda>(b :: bool, s :: jsstring). length s))" by simp
next
  fix at_start :: bool and s :: jsstring and x2 :: "jsstring \<times> jsstring \<times> jsstring"
    and p1 :: jsstring and y :: "jsstring \<times> jsstring" and p2 rest :: jsstring
  assume m: "bullet_match at_start s = Some x2" and x: "(p1, y) = x2" and y: "(p2, rest) = y"
  have dot: "dot_plus u = Some (g, r) \<Longrightarrow> length r < length u" for u g r
    by (cases u)
      (auto simp: dot_plus_def split: if_splits intro: le_imp_less_Suc length_dropWhile_le)
  have ws: "ws_plus u = Some (g, r) \<Longrightarrow> length r < length u" for u g r
  proof (induction u)
    case Nil
    then show ?case by simp
  next
    case (Cons d u)
    show ?case
    proof (cases "is_space d \<and> ws_plus u \<noteq> None")
      case True
      with Cons.prems have "ws_plus u = Some (g, r)" by auto
      from Cons.IH [OF this] show ?thesis by simp
    next
      case False
      with Cons.prems have "dot_plus (d # u) = Some (g, r)"
        by (cases "ws_plus u") (auto split: if_splits)
      then show ?thesis by (rule dot)
    qed
  qed
  have item: "item_match u = Some (g, r) \<Longrightarrow> length r < length u" for u g r
    by (cases u rule: item_match.cases) (auto split: if_splits dest!: ws)
  from m x y have "length rest < length s"
    by (auto simp: bullet_match_def split: option.splits list.splits if_splits dest!: item)
  then show "((False, rest), (at_start, s)) \<in> measure (\<lambda>(b, s). length s)" by simp
next
  fix at_start :: bool and s :: jsstring and c :: "16 word" and t :: jsstring
  assume "s = c # t"
  then show "((False, t), (at_start, s)) \<in> measure (\<lambda>(b, s). length s)" by simp
qed

definition bullets :: "jsstring \<Rightarrow> jsstring" where
  "bullets s = bullets_from True s"

text \<open>\<^verbatim>\<open>out.replace(/\n/g, "<br>")\<close>\<close>

definition breaks :: "jsstring \<Rightarrow> jsstring" where
  "breaks s = concat (map (\<lambda>c. if c = 0x0A then lit ''<br>'' else [c]) s)"

text \<open>
  \<^verbatim>\<open>function liteMarkdown(s)\<close> (the spec's formatContent): the four replacements in the
  order of the source. \<^verbatim>\<open>s || ""\<close> is evaluated before escapeHTML, which evaluates it again.
\<close>

definition liteMarkdown :: "jsval \<Rightarrow> jserror + jsstring" where
  "liteMarkdown s =
     (case escapeHTML (js_or s (Str [])) of
        Inl e \<Rightarrow> Inl e
      | Inr out \<Rightarrow> Inr (breaks (bullets (bold out))))"

section \<open>Configuration\<close>

text \<open>
  The Number value of a rational that is not negative: the nearest double, the one with
  the even significand where two are as near, and infinity from \<open>2^1024 - 2^970\<close> on.
  \<open>bit_length\<close> finds the binary exponent \<open>k\<close> of \<open>q\<close> (\<open>2^k \<le> q < 2^(k+1)\<close>); the
  doubles around \<open>q\<close> are the multiples of \<open>2^(k-52)\<close>, and of \<open>2^(-1074)\<close> below the
  normal range.
\<close>

function bit_length :: "int \<Rightarrow> int" where
  "bit_length n = (if n \<le> 0 then 0 else bit_length (n div 2) + 1)"
  by pat_completeness auto
termination
  by (relation "measure nat") auto

declare bit_length.simps [simp del]

definition pow2 :: "int \<Rightarrow> rat" where
  "pow2 e = (if 0 \<le> e then 2 ^ nat e else 1 / 2 ^ nat (- e))"

definition round_even :: "rat \<Rightarrow> int" where
  "round_even r =
     (let f = \<lfloor>r\<rfloor>; d = r - of_int f
      in if d < 1 / 2 then f
         else if 1 / 2 < d then f + 1
         else if even f then f else f + 1)"

definition double_of :: "rat \<Rightarrow> number" where
  "double_of q =
     (if q = 0 then Fin 0
      else
        (case quotient_of q of
           (a, b) \<Rightarrow>
             let k0 = bit_length a - bit_length b;
                 k = (if pow2 k0 \<le> q then k0 else k0 - 1);
                 e = max (k - 52) (- 1074);
                 v = of_int (round_even (q / pow2 e)) * pow2 e
             in if pow2 1024 \<le> v then PosInf else Fin v))"

text \<open>
  \<^verbatim>\<open>Number(x)\<close> on a string (StringToNumber): the string is trimmed; the empty string is 0;
  otherwise it is a non-decimal integer literal (\<^verbatim>\<open>0x\<close>, \<^verbatim>\<open>0o\<close>, \<^verbatim>\<open>0b\<close>, no sign), or a
  signed decimal literal (\<^verbatim>\<open>Infinity\<close>, digits, a fraction, an exponent), or not a number.
  The value of a literal is the Number value of what it denotes.
\<close>

definition digit_of :: "16 word \<Rightarrow> nat" where
  "digit_of c =
     (if 0x30 \<le> c \<and> c \<le> 0x39 then unat c - 48
      else if 0x41 \<le> c \<and> c \<le> 0x46 then unat c - 55
      else if 0x61 \<le> c \<and> c \<le> 0x66 then unat c - 87
      else 16)"

definition is_digit :: "16 word \<Rightarrow> bool" where
  "is_digit c = (digit_of c < 10)"

definition digits_in :: "nat \<Rightarrow> jsstring \<Rightarrow> bool" where
  "digits_in b ds = (ds \<noteq> [] \<and> list_all (\<lambda>c. digit_of c < b) ds)"

definition radix_value :: "nat \<Rightarrow> jsstring \<Rightarrow> int" where
  "radix_value b ds = foldl (\<lambda>a c. a * int b + int (digit_of c)) 0 ds"

definition non_decimal :: "jsstring \<Rightarrow> int option" where
  "non_decimal s =
     (case s of
        z # p # ds \<Rightarrow>
          if z \<noteq> 0x30 then None
          else if (p = 0x78 \<or> p = 0x58) \<and> digits_in 16 ds then Some (radix_value 16 ds)
          else if (p = 0x6F \<or> p = 0x4F) \<and> digits_in 8 ds then Some (radix_value 8 ds)
          else if (p = 0x62 \<or> p = 0x42) \<and> digits_in 2 ds then Some (radix_value 2 ds)
          else None
      | _ \<Rightarrow> None)"

text \<open>The exponent part that ends a decimal literal, if there is one.\<close>

definition exponent_part :: "jsstring \<Rightarrow> int option" where
  "exponent_part s =
     (case s of
        [] \<Rightarrow> Some 0
      | c # t \<Rightarrow>
          if c \<noteq> 0x65 \<and> c \<noteq> 0x45 then None
          else (case t of
                  [] \<Rightarrow> None
                | d # u \<Rightarrow>
                    if d = 0x2B then (if digits_in 10 u then Some (radix_value 10 u) else None)
                    else if d = 0x2D then (if digits_in 10 u then Some (- radix_value 10 u) else None)
                    else if digits_in 10 t then Some (radix_value 10 t)
                    else None))"

definition scale10 :: "rat \<Rightarrow> int \<Rightarrow> rat" where
  "scale10 q e = (if 0 \<le> e then q * 10 ^ nat e else q / 10 ^ nat (- e))"

definition unsigned_decimal :: "jsstring \<Rightarrow> number" where
  "unsigned_decimal s =
     (if s = lit ''Infinity'' then PosInf
      else
        let ip = takeWhile is_digit s;
            r1 = dropWhile is_digit s;
            dotted = (case r1 of c # _ \<Rightarrow> c = 0x2E | [] \<Rightarrow> False);
            fp = (if dotted then takeWhile is_digit (tl r1) else []);
            r2 = (if dotted then dropWhile is_digit (tl r1) else r1)
        in if ip = [] \<and> fp = [] then NaN
           else (case exponent_part r2 of
                   None \<Rightarrow> NaN
                 | Some e \<Rightarrow>
                     double_of (scale10 (of_int (radix_value 10 ip)
                                         + of_int (radix_value 10 fp) / 10 ^ length fp) e)))"

fun negate :: "number \<Rightarrow> number" where
  "negate NaN = NaN"
| "negate (Fin q) = Fin (- q)"
| "negate PosInf = NegInf"
| "negate NegInf = PosInf"

definition StringToNumber :: "jsstring \<Rightarrow> number" where
  "StringToNumber s =
     (case trim s of
        [] \<Rightarrow> Fin 0
      | c # t \<Rightarrow>
          (case non_decimal (c # t) of
             Some n \<Rightarrow> double_of (of_int n)
           | None \<Rightarrow>
               if c = 0x2B then unsigned_decimal t
               else if c = 0x2D then negate (unsigned_decimal t)
               else unsigned_decimal (c # t)))"

text \<open>
  \<^verbatim>\<open>Number(x)\<close> (ToNumber). An array or an object is first made a primitive, which for
  these values comes to its string. An object with an own property \<^verbatim>\<open>toString\<close> (which,
  being data, cannot be called) has none, and the conversion throws a TypeError; any other
  object gives \<^verbatim>\<open>"[object Object]"\<close>. An array gives the strings of its elements joined by
  commas, with the empty string for null and undefined, and throws where an element does.
\<close>

fun string_throws :: "jsval \<Rightarrow> bool" where
  "string_throws (Obj kvs) = (map_of kvs (lit ''toString'') \<noteq> None)"
| "string_throws (Arr xs) = list_ex string_throws xs"
| "string_throws _ = False"

text \<open>
  The number of the string of an array none of whose elements throws: the empty array
  gives the empty string, an array of one element the string of that element, and a longer
  one a string with a comma, which is no number.
\<close>

fun array_number :: "jsval list \<Rightarrow> number" where
  "array_number [] = Fin 0"
| "array_number [Undefined] = Fin 0"
| "array_number [Null] = Fin 0"
| "array_number [Bool b] = NaN"
| "array_number [Num n] = n"
| "array_number [Str s] = StringToNumber s"
| "array_number [Arr xs] = array_number xs"
| "array_number [Obj kvs] = NaN"
| "array_number (x # y # zs) = NaN"

fun ToNumber :: "jsval \<Rightarrow> jserror + number" where
  "ToNumber Undefined = Inr NaN"
| "ToNumber Null = Inr (Fin 0)"
| "ToNumber (Bool b) = Inr (Fin (if b then 1 else 0))"
| "ToNumber (Num n) = Inr n"
| "ToNumber (Str s) = Inr (StringToNumber s)"
| "ToNumber (Arr xs) =
     (if string_throws (Arr xs) then Inl TypeError else Inr (array_number xs))"
| "ToNumber (Obj kvs) = (if string_throws (Obj kvs) then Inl TypeError else Inr NaN)"

text \<open>
  \<^verbatim>\<open>const INPUT_LIMIT = Number(window.INPUT_LIMIT || 350);\<close> Where \<^verbatim>\<open>Number\<close> throws,
  the script stops at this line.
\<close>

definition INPUT_LIMIT :: "jsval \<Rightarrow> jserror + number" where
  "INPUT_LIMIT w = ToNumber (js_or w (Num (Fin 350)))"

text \<open>
  \<^verbatim>\<open>const API_BASE = (window.API_BASE || "").trim();\<close> A truthy global that is not a string
  has no \<^verbatim>\<open>trim\<close>, and the script stops there with a TypeError.
\<close>

definition API_BASE :: "jsval \<Rightarrow> jserror + jsstring" where
  "API_BASE w =
     (case js_or w (Str []) of
        Str s \<Rightarrow> Inr (trim s)
      | _ \<Rightarrow> Inl TypeError)"

record config =
  api_base :: jsstring
  input_limit :: number

text \<open>The two constants of the script, from the two globals; where one throws there is none.\<close>

definition load_config :: "jsval \<Rightarrow> jsval \<Rightarrow> jserror + config" where
  "load_config wa wl =
     (case API_BASE wa of
        Inl e \<Rightarrow> Inl e
      | Inr base \<Rightarrow>
          (case INPUT_LIMIT wl of
             Inl e \<Rightarrow> Inl e
           | Inr l \<Rightarrow> Inr \<lparr>api_base = base, input_limit = l\<rparr>))"

section \<open>State and page\<close>

datatype role = User | Assistant

record message =
  role :: role
  content :: jsval

record state =
  messages :: "message list"
  loading :: bool

definition greeting :: message where
  "greeting =
     \<lparr>role = Assistant,
      content = Str (lit ''Halo! Saya **CCCC.AI**. Tanyakan apa pun tentang CC Cup XL (cccup.id).'')\<rparr>"

definition initial_state :: state where
  "initial_state = \<lparr>messages = [greeting], loading = False\<rparr>"

text \<open>
  What \<^verbatim>\<open>render\<close> puts under the message list: the wrapper and bubble of \<^verbatim>\<open>bubble(role,
  html)\<close> with their class names and the bubble's \<^verbatim>\<open>innerHTML\<close>, and the typing indicator.
\<close>

datatype node =
    Bubble jsstring jsstring jsstring
  | Typing jsstring jsstring

text \<open>
  The counter's text is the template \<^verbatim>\<open>`${elInput.value.length} / ${INPUT_LIMIT} characters`\<close>;
  the model keeps its two interpolated values.
\<close>

record counter_text =
  shown_length :: nat
  shown_limit :: number

record request =
  url :: jsstring
  http_method :: jsstring
  headers :: "(jsstring \<times> jsstring) list"
  body_messages :: "message list"

text \<open>
  The page: the script's \<^verbatim>\<open>state\<close>, the parts of the document it reads and writes
  (\<^verbatim>\<open>elInput.value\<close>, \<^verbatim>\<open>elCounter.textContent\<close>, the children of \<^verbatim>\<open>elMessages\<close>, the
  \<^verbatim>\<open>theme-dark\<close> class of the body, the text of the theme button), the \<^verbatim>\<open>theme\<close> item of
  local storage, and what it has sent out: the errors logged to the console and the
  requests given to \<^verbatim>\<open>fetch\<close>, in order. The five elements the script looks up exist:
  it registers its handlers on them before anything else can run. \<^verbatim>\<open>autoGrow\<close> and
  \<^verbatim>\<open>scrollTo\<close> only set the height of the input box and the scroll position, which depend
  on layout and which nothing reads back; they are left out.
\<close>

record page =
  st :: state
  input_value :: jsstring
  counter :: counter_text
  view_nodes :: "node list"
  theme_dark :: bool
  theme_button :: jsstring
  stored_theme :: "jsstring option"
  console_errors :: nat
  requests :: "request list"

definition bubble :: "role \<Rightarrow> jsstring \<Rightarrow> node" where
  "bubble r html =
     Bubble (lit ''msg '' @ (if r = User then lit ''right'' else lit ''left''))
            (lit ''bubble '' @ (if r = User then lit ''bubble-user'' else lit ''bubble-bot''))
            html"

text \<open>
  The \<^verbatim>\<open>forEach\<close> of \<^verbatim>\<open>render\<close>: a bubble for each message in order. Where
  \<^verbatim>\<open>liteMarkdown\<close> throws, the bubbles appended so far stay and the error leaves the loop.
\<close>

fun render_messages :: "message list \<Rightarrow> node list \<times> jserror option" where
  "render_messages [] = ([], None)"
| "render_messages (m # ms) =
     (case liteMarkdown (content m) of
        Inl e \<Rightarrow> ([], Some e)
      | Inr html \<Rightarrow>
          (case render_messages ms of (ns, e) \<Rightarrow> (bubble (role m) html # ns, e)))"

definition typing_indicator :: node where
  "typing_indicator =
     Typing (lit ''typing bubble bubble-bot'') (lit ''CCCC.AI sedang mengetik'' @ [0x2026])"

definition render :: "page \<Rightarrow> page \<times> jserror option" where
  "render pg =
     (case render_messages (messages (st pg)) of
        (ns, Some e) \<Rightarrow> (pg\<lparr>view_nodes := ns\<rparr>, Some e)
      | (ns, None) \<Rightarrow>
          (pg\<lparr>view_nodes := ns @ (if loading (st pg) then [typing_indicator] else [])\<rparr>, None))"

section \<open>The character counter\<close>

text \<open>\<^verbatim>\<open>elInput.value.length > INPUT_LIMIT\<close>: a comparison with NaN is false.\<close>

fun length_exceeds :: "nat \<Rightarrow> number \<Rightarrow> bool" where
  "length_exceeds n NaN = False"
| "length_exceeds n (Fin q) = (q < of_nat n)"
| "length_exceeds n PosInf = False"
| "length_exceeds n NegInf = True"

text \<open>
  \<^verbatim>\<open>s.slice(0, lim)\<close>: the end is made an integer by cutting its fraction (NaN is 0); a
  negative end counts from the end of the string, and the result is never below the start.
\<close>

definition truncate_rat :: "rat \<Rightarrow> int" where
  "truncate_rat q = (if 0 \<le> q then \<lfloor>q\<rfloor> else \<lceil>q\<rceil>)"

fun slice0 :: "jsstring \<Rightarrow> number \<Rightarrow> jsstring" where
  "slice0 s NaN = []"
| "slice0 s (Fin q) =
     (let n = truncate_rat q
      in if n < 0 then take (nat (int (length s) + n)) s else take (nat n) s)"
| "slice0 s PosInf = s"
| "slice0 s NegInf = []"

definition updateCounter :: "config \<Rightarrow> page \<Rightarrow> page" where
  "updateCounter cfg pg =
     (let v = (if length_exceeds (length (input_value pg)) (input_limit cfg)
               then slice0 (input_value pg) (input_limit cfg)
               else input_value pg)
      in pg\<lparr>input_value := v,
            counter := \<lparr>shown_length = length v, shown_limit = input_limit cfg\<rparr>\<rparr>)"

section \<open>Sending\<close>

text \<open>
  What comes back from \<^verbatim>\<open>fetch\<close>: a rejection (no response at all), or a response with
  its status and, where \<^verbatim>\<open>resp.json()\<close> can parse the body, the parsed value.
\<close>

datatype outcome = NetworkError | Response nat "jsval option"

definition resp_ok :: "nat \<Rightarrow> bool" where
  "resp_ok status = (200 \<le> status \<and> status \<le> 299)"

text \<open>
  \<^verbatim>\<open>x?.name\<close> for the names the script reads (\<^verbatim>\<open>content\<close>, \<^verbatim>\<open>choices\<close>, \<^verbatim>\<open>message\<close>): an
  own property of an object; undefined on null and undefined (the optional chain), and on
  strings, numbers, booleans and arrays, which have no property of these names.
\<close>

fun opt_prop :: "jsval \<Rightarrow> jsstring \<Rightarrow> jsval" where
  "opt_prop (Obj kvs) k = (case map_of kvs k of Some v \<Rightarrow> v | None \<Rightarrow> Undefined)"
| "opt_prop _ k = Undefined"

text \<open>
  \<^verbatim>\<open>x?.[0]\<close>: the first element of an array, the first code unit of a string, the
  property \<^verbatim>\<open>"0"\<close> of an object.
\<close>

fun opt_index0 :: "jsval \<Rightarrow> jsval" where
  "opt_index0 (Arr []) = Undefined"
| "opt_index0 (Arr (x # xs)) = x"
| "opt_index0 (Str []) = Undefined"
| "opt_index0 (Str (c # cs)) = Str [c]"
| "opt_index0 (Obj kvs) = opt_prop (Obj kvs) (lit ''0'')"
| "opt_index0 _ = Undefined"

definition empty_notice :: jsstring where
  "empty_notice = lit ''Maaf, respons kosong.''"

definition error_notice :: jsstring where
  "error_notice = lit ''Maaf, terjadi kesalahan saat menghubungi server.''"

text \<open>
  \<^verbatim>\<open>data?.content || data?.choices?.[0]?.message?.content || "Maaf, respons kosong."\<close>
\<close>

definition top_content :: "jsval \<Rightarrow> jsval" where
  "top_content data = opt_prop data (lit ''content'')"

definition choice_content :: "jsval \<Rightarrow> jsval" where
  "choice_content data =
     opt_prop (opt_prop (opt_index0 (opt_prop data (lit ''choices''))) (lit ''message''))
       (lit ''content'')"

definition answer_of :: "jsval \<Rightarrow> jsval" where
  "answer_of data = js_or (js_or (top_content data) (choice_content data)) (Str empty_notice)"

text \<open>
  What the \<^verbatim>\<open>try\<close> block gives after the request: the answer, or nothing where it
  throws (\<^verbatim>\<open>fetch\<close> rejects, \<^verbatim>\<open>resp.ok\<close> is false, \<^verbatim>\<open>resp.json()\<close> rejects).
\<close>

fun try_answer :: "outcome \<Rightarrow> jsval option" where
  "try_answer NetworkError = None"
| "try_answer (Response status body) =
     (if \<not> resp_ok status then None
      else (case body of None \<Rightarrow> None | Some data \<Rightarrow> Some (answer_of data)))"

definition push_message :: "message \<Rightarrow> page \<Rightarrow> page" where
  "push_message m pg = pg\<lparr>st := (st pg)\<lparr>messages := messages (st pg) @ [m]\<rparr>\<rparr>"

definition set_loading :: "bool \<Rightarrow> page \<Rightarrow> page" where
  "set_loading b pg = pg\<lparr>st := (st pg)\<lparr>loading := b\<rparr>\<rparr>"

text \<open>
  \<^verbatim>\<open>state.messages.slice(1)\<close> and \<^verbatim>\<open>history.slice(-12)\<close>, and the request of the
  \<^verbatim>\<open>fetch\<close> call.
\<close>

definition history :: "message list \<Rightarrow> message list" where
  "history ms = drop 1 ms"

definition last12 :: "message list \<Rightarrow> message list" where
  "last12 h = drop (length h - 12) h"

definition chat_request :: "config \<Rightarrow> message list \<Rightarrow> request" where
  "chat_request cfg ms =
     \<lparr>url = (if api_base cfg = [] then [] else api_base cfg) @ lit ''/v1/chat/completions'',
      http_method = lit ''POST'',
      headers = [(lit ''Content-Type'', lit ''application/json'')],
      body_messages = last12 (history ms)\<rparr>"

text \<open>
  \<^verbatim>\<open>send\<close> up to its \<^verbatim>\<open>await fetch(...)\<close>: ignored where the trimmed input is empty or a
  request is loading; else the user's message is appended, the input cleared, the counter
  updated, \<^verbatim>\<open>loading\<close> set and the page rendered, and the request goes out. \<^verbatim>\<open>render\<close>
  stands before the \<^verbatim>\<open>try\<close>: where it throws, \<^verbatim>\<open>send\<close> ends there.
\<close>

datatype started = Ignored | Threw jserror | Awaiting request

definition send_start :: "config \<Rightarrow> page \<Rightarrow> page \<times> started" where
  "send_start cfg pg =
     (let text = trim (input_value pg)
      in if text = [] \<or> loading (st pg) then (pg, Ignored)
         else
           (let pg1 = push_message \<lparr>role = User, content = Str text\<rparr> pg;
                pg2 = updateCounter cfg (pg1\<lparr>input_value := []\<rparr>);
                pg3 = set_loading True pg2
            in case render pg3 of
                 (pg4, Some e) \<Rightarrow> (pg4, Threw e)
               | (pg4, None) \<Rightarrow>
                   (let req = chat_request cfg (messages (st pg4))
                    in (pg4\<lparr>requests := requests pg4 @ [req]\<rparr>, Awaiting req))))"

text \<open>
  \<^verbatim>\<open>send\<close> from the moment the request settles: the answer or, from the \<^verbatim>\<open>catch\<close>, the
  logged error and the error notice; then \<^verbatim>\<open>finally\<close>.
\<close>

definition send_settle :: "outcome \<Rightarrow> page \<Rightarrow> page \<times> jserror option" where
  "send_settle oc pg =
     (let pg1 = (case try_answer oc of
                   Some answer \<Rightarrow> push_message \<lparr>role = Assistant, content = answer\<rparr> pg
                 | None \<Rightarrow>
                     push_message \<lparr>role = Assistant, content = Str error_notice\<rparr>
                       (pg\<lparr>console_errors := console_errors pg + 1\<rparr>))
      in render (set_loading False pg1))"

text \<open>One call of \<^verbatim>\<open>send\<close> with nothing else happening while it waits.\<close>

definition send :: "config \<Rightarrow> outcome \<Rightarrow> page \<Rightarrow> page" where
  "send cfg oc pg =
     (case send_start cfg pg of
        (pg1, Awaiting req) \<Rightarrow> fst (send_settle oc pg1)
      | (pg1, _) \<Rightarrow> pg1)"

section \<open>Theme\<close>

definition sun :: jsstring where
  "sun = [0x2600, 0xFE0F]"

definition moon :: jsstring where
  "moon = [0xD83C, 0xDF19]"

text \<open>The click handler of the theme button.\<close>

definition toggleTheme :: "page \<Rightarrow> page" where
  "toggleTheme pg =
     (let dark = \<not> theme_dark pg
      in pg\<lparr>theme_dark := dark,
            theme_button := (if dark then sun else moon),
            stored_theme := Some (if dark then lit ''dark'' else lit ''light'')\<rparr>)"

section \<open>The session\<close>

text \<open>
  The script at load, on the document as the markup gives it: \<^verbatim>\<open>updateCounter()\<close>,
  \<^verbatim>\<open>render()\<close>, and the dark theme where local storage asks for it.
\<close>

definition startup :: "config \<Rightarrow> page \<Rightarrow> page" where
  "startup cfg doc =
     (let pg1 = updateCounter cfg (doc\<lparr>st := initial_state, console_errors := 0, requests := []\<rparr>);
          pg2 = fst (render pg1)
      in if stored_theme pg2 = Some (lit ''dark'')
         then pg2\<lparr>theme_dark := True, theme_button := sun\<rparr>
         else pg2)"

text \<open>
  What happens in a session: the user edits the input (the \<^verbatim>\<open>input\<close> event runs
  \<^verbatim>\<open>updateCounter\<close> on the new text), \<^verbatim>\<open>send\<close> is called (the button, or Enter), the
  outstanding request of a \<^verbatim>\<open>send\<close> settles, the theme button is clicked. \<open>in_flight\<close>
  counts the requests given to \<^verbatim>\<open>fetch\<close> that have not settled; one can settle only where
  one is in flight.
\<close>

datatype event = Edit jsstring | Submit | Settle outcome | ThemeClick

record session =
  page_of :: page
  in_flight :: nat

fun step :: "config \<Rightarrow> session \<Rightarrow> event \<Rightarrow> session" where
  "step cfg s (Edit v) = s\<lparr>page_of := updateCounter cfg ((page_of s)\<lparr>input_value := v\<rparr>)\<rparr>"
| "step cfg s Submit =
     (case send_start cfg (page_of s) of
        (pg, Awaiting req) \<Rightarrow> \<lparr>page_of = pg, in_flight = in_flight s + 1\<rparr>
      | (pg, _) \<Rightarrow> s\<lparr>page_of := pg\<rparr>)"
| "step cfg s (Settle oc) =
     (if in_flight s = 0 then s
      else \<lparr>page_of = fst (send_settle oc (page_of s)), in_flight = in_flight s - 1\<rparr>)"
| "step cfg s ThemeClick = s\<lparr>page_of := toggleTheme (page_of s)\<rparr>"

definition run :: "config \<Rightarrow> page \<Rightarrow> event list \<Rightarrow> session" where
  "run cfg doc evs = foldl (step cfg) \<lparr>page_of = startup cfg doc, in_flight = 0\<rparr> evs"

section \<open>Sample pages\<close>

text \<open>
  Pages, responses and a configuration to look at the properties on: a page at rest with
  \<^verbatim>\<open>abcdef\<close> typed, the same with a request loading, with a blank input, and with a long
  transcript; the configuration with no global set; a session in which the server answers
  \<^verbatim>\<open>{"content": 5}\<close> and the user types \<^verbatim>\<open>Hello\<close> again, and the page it ends on.
\<close>

definition sample_page :: page where
  "sample_page =
     \<lparr>st = initial_state, input_value = lit ''abcdef'',
      counter = \<lparr>shown_length = 0, shown_limit = Fin 350\<rparr>, view_nodes = [],
      theme_dark = False, theme_button = moon, stored_theme = None,
      console_errors = 0, requests = []\<rparr>"

definition default_config :: config where
  "default_config = \<lparr>api_base = [], input_limit = Fin 350\<rparr>"

definition hello :: jsstring where
  "hello = lit ''Hello''"

definition hi_there :: jsval where
  "hi_there = Obj [(lit ''content'', Str (lit ''Hi there''))]"

definition empty_content :: jsval where
  "empty_content = Obj [(lit ''content'', Str [])]"

definition loading_page :: page where
  "loading_page = sample_page\<lparr>st := \<lparr>messages = [greeting], loading = True\<rparr>\<rparr>"

definition blank_page :: page where
  "blank_page = sample_page\<lparr>input_value := lit '' ''\<rparr>"

definition choice_only :: jsval where
  "choice_only =
     Obj [(lit ''content'', Str []),
          (lit ''choices'', Arr [Obj [(lit ''message'', Obj [(lit ''content'', Str (lit ''x''))])]])]"

text \<open>A transcript of the greeting and 14 more messages, to look at the cut to 12.\<close>

definition numbered :: "nat \<Rightarrow> message list" where
  "numbered n =
     map (\<lambda>i. \<lparr>role = (if even i then User else Assistant),
               content = Str (replicate (Suc i) 0x61)\<rparr>)
       [0..<n]"

definition long_page :: page where
  "long_page = sample_page\<lparr>st := \<lparr>messages = greeting # numbered 14, loading = False\<rparr>\<rparr>"

definition number_content :: jsval where
  "number_content = Obj [(lit ''content'', Num (Fin 5))]"

definition number_session :: "event list" where
  "number_session =
     [Edit hello, Submit, Settle (Response 200 (Some number_content)), Edit hello]"

definition number_page :: page where
  "number_page = page_of (run default_config sample_page number_session)"

section \<open>Transcripts of strings\<close>

text \<open>
  The spec's data model gives a message a string as its content, and its interface gives
  the two answer fields of a response as strings. The script itself stores whatever truthy
  value the response holds; \<open>string_contents\<close> says of a transcript that every content in
  it is a string.
\<close>

fun is_Str :: "jsval \<Rightarrow> bool" where
  "is_Str (Str s) = True"
| "is_Str _ = False"

definition string_contents :: "message list \<Rightarrow> bool" where
  "string_contents ms = list_all (\<lambda>m. is_Str (content m)) ms"

text \<open>
  An event whose answer, where it is the settling of a successful response, is a string.
\<close>

definition string_answer :: "event \<Rightarrow> bool" where
  "string_answer ev =
     (case ev of
        Settle oc \<Rightarrow> (case try_answer oc of Some a \<Rightarrow> is_Str a | None \<Rightarrow> True)
      | _ \<Rightarrow> True)"

section \<open>Lines\<close>

text \<open>
  The lines of a text are what stands between its line feeds. An item line is a marker
  (\<^verbatim>\<open>*\<close> or \<^verbatim>\<open>-\<close>), one or more white-space characters, and a rest that starts with a
  character that is no white space; \<open>item_rest\<close> gives that rest. A plain line is empty, or
  starts with no marker, or with a marker and then a character that is no white space.
\<close>

fun join_with :: "jsstring \<Rightarrow> jsstring list \<Rightarrow> jsstring" where
  "join_with sep [] = []"
| "join_with sep [l] = l"
| "join_with sep (l # k # ls) = l @ sep @ join_with sep (k # ls)"

definition is_marker :: "16 word \<Rightarrow> bool" where
  "is_marker m = (m = 0x2A \<or> m = 0x2D)"

definition item_rest :: "jsstring \<Rightarrow> jsstring option" where
  "item_rest l =
     (case l of
        m # w # t \<Rightarrow>
          if is_marker m \<and> is_space w \<and> dropWhile is_space t \<noteq> []
          then Some (dropWhile is_space t) else None
      | _ \<Rightarrow> None)"

definition plain_line :: "jsstring \<Rightarrow> bool" where
  "plain_line l =
     (case l of
        [] \<Rightarrow> True
      | m # t \<Rightarrow> \<not> is_marker m \<or> (case t of [] \<Rightarrow> False | c # _ \<Rightarrow> \<not> is_space c))"

text \<open>
  What a line becomes: escaped and with its bold spans converted, and an item line with
  the bullet and one space for its marker and the white space after it.
\<close>

definition format_line :: "jsstring \<Rightarrow> jsstring" where
  "format_line l =
     (case item_rest l of
        Some r \<Rightarrow> [0x2022, 0x20] @ bold (escape_text r)
      | None \<Rightarrow> bold (escape_text l))"

text \<open>What the bullet replacement makes of a line that is an item line or a plain line.\<close>

definition bullet_line :: "jsstring \<Rightarrow> jsstring" where
  "bullet_line l =
     (case item_rest l of
        Some r \<Rightarrow> [0x2022, 0x20] @ r
      | None \<Rightarrow> l)"

section \<open>Basic facts\<close>

lemma render_fields:
  "st (fst (render pg)) = st pg" "requests (fst (render pg)) = requests pg"
  "input_value (fst (render pg)) = input_value pg" "console_errors (fst (render pg)) = console_errors pg"
  "counter (fst (render pg)) = counter pg"
  by (auto simp: render_def split: prod.splits option.splits)

lemma updateCounter_fields:
  "st (updateCounter cfg pg) = st pg" "requests (updateCounter cfg pg) = requests pg"
  "console_errors (updateCounter cfg pg) = console_errors pg"
  "view_nodes (updateCounter cfg pg) = view_nodes pg"
  by (simp_all add: updateCounter_def Let_def)

lemma toggleTheme_fields:
  "st (toggleTheme pg) = st pg" "requests (toggleTheme pg) = requests pg"
  "input_value (toggleTheme pg) = input_value pg" "view_nodes (toggleTheme pg) = view_nodes pg"
  by (simp_all add: toggleTheme_def Let_def)

lemma send_settle_state:
  "st (fst (send_settle oc pg)) =
     \<lparr>messages = messages (st pg) @
        [\<lparr>role = Assistant,
          content = (case try_answer oc of Some a \<Rightarrow> a | None \<Rightarrow> Str error_notice)\<rparr>],
      loading = False\<rparr>"
  by (simp add: send_settle_def render_fields push_message_def set_loading_def split: option.splits)

lemma send_settle_requests: "requests (fst (send_settle oc pg)) = requests pg"
  by (simp add: send_settle_def render_fields push_message_def set_loading_def split: option.splits)

lemma send_settle_console:
  "console_errors (fst (send_settle oc pg)) =
     console_errors pg + (case try_answer oc of Some a \<Rightarrow> 0 | None \<Rightarrow> 1)"
  by (simp add: send_settle_def render_fields push_message_def set_loading_def split: option.splits)

lemma answer_of_cases:
  "answer_of data =
     (if truthy (top_content data) then top_content data
      else if truthy (choice_content data) then choice_content data
      else Str empty_notice)"
  by (simp add: answer_of_def js_or_def)

lemma liteMarkdown_is_Str: "is_Str v \<Longrightarrow> \<exists>html. liteMarkdown v = Inr html"
  by (cases v) (simp_all add: liteMarkdown_def escapeHTML_def js_or_def)

lemma render_messages_strings:
  "string_contents ms \<Longrightarrow> snd (render_messages ms) = None \<and> length (fst (render_messages ms)) = length ms"
proof (induction ms)
  case Nil
  then show ?case by simp
next
  case (Cons m ms)
  then obtain html where "liteMarkdown (content m) = Inr html"
    using liteMarkdown_is_Str [of "content m"] by (auto simp: string_contents_def)
  with Cons show ?case
    by (auto simp: string_contents_def split: prod.splits)
qed

lemma render_strings:
  "string_contents (messages (st pg)) \<Longrightarrow>
     render pg = (pg\<lparr>view_nodes := fst (render_messages (messages (st pg)))
                        @ (if loading (st pg) then [typing_indicator] else [])\<rparr>, None)"
  using render_messages_strings [of "messages (st pg)"]
  by (auto simp: render_def split: prod.splits option.splits)

lemma send_start_ignored:
  "trim (input_value pg) = [] \<or> loading (st pg) \<Longrightarrow> send_start cfg pg = (pg, Ignored)"
  by (auto simp: send_start_def Let_def)

lemma send_start_state:
  "trim (input_value pg) \<noteq> [] \<Longrightarrow> \<not> loading (st pg) \<Longrightarrow>
   st (fst (send_start cfg pg)) =
     \<lparr>messages = messages (st pg) @ [\<lparr>role = User, content = Str (trim (input_value pg))\<rparr>],
      loading = True\<rparr>"
  using render_fields(1) [of "set_loading True (updateCounter cfg
      ((push_message \<lparr>role = User, content = Str (trim (input_value pg))\<rparr> pg)\<lparr>input_value := []\<rparr>))"]
  by (auto simp: send_start_def Let_def updateCounter_fields push_message_def set_loading_def
      split: prod.splits option.splits)

lemma send_start_awaiting:
  assumes "trim (input_value pg) \<noteq> []" "\<not> loading (st pg)" "string_contents (messages (st pg))"
  shows "\<exists>pg'. send_start cfg pg =
            (pg', Awaiting (chat_request cfg
               (messages (st pg) @ [\<lparr>role = User, content = Str (trim (input_value pg))\<rparr>])))
          \<and> requests pg' = requests pg @ [chat_request cfg
               (messages (st pg) @ [\<lparr>role = User, content = Str (trim (input_value pg))\<rparr>])]"
proof -
  let ?u = "\<lparr>role = User, content = Str (trim (input_value pg))\<rparr>"
  let ?pg3 = "set_loading True (updateCounter cfg ((push_message ?u pg)\<lparr>input_value := []\<rparr>))"
  have ms: "messages (st ?pg3) = messages (st pg) @ [?u]"
    by (simp add: set_loading_def updateCounter_fields push_message_def)
  have "string_contents (messages (st ?pg3))"
    using assms(3) by (simp add: ms string_contents_def)
  from render_strings [OF this] obtain pg4 where r: "render ?pg3 = (pg4, None)"
    and f: "st pg4 = st ?pg3" "requests pg4 = requests ?pg3"
    by simp
  have "requests ?pg3 = requests pg"
    by (simp add: set_loading_def updateCounter_fields push_message_def)
  with assms r f ms show ?thesis
    by (simp add: send_start_def Let_def)
qed

lemma send_start_cases:
  "send_start cfg pg = (pg', r) \<Longrightarrow>
     (r = Ignored \<and> pg' = pg \<and> (trim (input_value pg) = [] \<or> loading (st pg)))
   \<or> (r \<noteq> Ignored \<and> trim (input_value pg) \<noteq> [] \<and> \<not> loading (st pg)
       \<and> st pg' = \<lparr>messages = messages (st pg) @ [\<lparr>role = User, content = Str (trim (input_value pg))\<rparr>],
                    loading = True\<rparr>
       \<and> (case r of
             Awaiting req \<Rightarrow> req = chat_request cfg (messages (st pg'))
                               \<and> requests pg' = requests pg @ [req]
           | _ \<Rightarrow> requests pg' = requests pg))"
proof (cases "trim (input_value pg) = [] \<or> loading (st pg)")
  case True
  assume "send_start cfg pg = (pg', r)"
  with True show ?thesis by (auto simp: send_start_ignored)
next
  case False
  assume a: "send_start cfg pg = (pg', r)"
  let ?u = "\<lparr>role = User, content = Str (trim (input_value pg))\<rparr>"
  let ?pg3 = "set_loading True (updateCounter cfg ((push_message ?u pg)\<lparr>input_value := []\<rparr>))"
  have s3: "st ?pg3 = \<lparr>messages = messages (st pg) @ [?u], loading = True\<rparr>"
    by (simp add: set_loading_def updateCounter_fields push_message_def)
  have r3: "requests ?pg3 = requests pg"
    by (simp add: set_loading_def updateCounter_fields push_message_def)
  obtain pg4 e where r: "render ?pg3 = (pg4, e)" by (cases "render ?pg3")
  then have f: "st pg4 = st ?pg3" "requests pg4 = requests ?pg3"
    using render_fields(1,2) [of ?pg3] by simp_all
  show ?thesis
  proof (cases e)
    case None
    with a False r f s3 r3 show ?thesis
      by (auto simp: send_start_def Let_def)
  next
    case (Some err)
    with a False r f s3 r3 show ?thesis
      by (auto simp: send_start_def Let_def)
  qed
qed

section \<open>Properties of the rendering\<close>

lemma escape_text_no_angle: "0x3C \<notin> set (escape_text s) \<and> 0x3E \<notin> set (escape_text s)"
  by (auto simp: escape_text_def escape_unit_def lit_def split: if_splits)

lemma liteMarkdown_Str: "liteMarkdown (Str s) = Inr (breaks (bullets (bold (escape_text s))))"
  by (simp add: liteMarkdown_def escapeHTML_def js_or_def escape_text_def)


section \<open>Properties of the character counter\<close>

lemma truncate_rat_of_nat: "truncate_rat (of_nat n) = int n"
  by (simp add: truncate_rat_def)

lemma INPUT_LIMIT_falsy: "\<not> truthy w \<Longrightarrow> INPUT_LIMIT w = Inr (Fin 350)"
  by (simp add: INPUT_LIMIT_def js_or_def)

lemma INPUT_LIMIT_truthy: "truthy w \<Longrightarrow> INPUT_LIMIT w = ToNumber w"
  by (simp add: INPUT_LIMIT_def js_or_def)

text \<open>
  C7. With a character limit \<open>n\<close> (a natural number; 350 where the global is absent, the
  global's value where it is a positive count), \<^verbatim>\<open>updateCounter\<close> cuts an input longer than
  \<open>n\<close> to its first \<open>n\<close> code units and shows \<open>n / n\<close>; an input of at most \<open>n\<close> code
  units is left as it is, and the counter shows its length.
\<close>

theorem updateCounter_truncates:
  assumes "input_limit cfg = Fin (of_nat n)"
  shows "(n < length (input_value pg) \<longrightarrow>
            input_value (updateCounter cfg pg) = take n (input_value pg)
            \<and> length (input_value (updateCounter cfg pg)) = n
            \<and> counter (updateCounter cfg pg) = \<lparr>shown_length = n, shown_limit = Fin (of_nat n)\<rparr>)
       \<and> (length (input_value pg) \<le> n \<longrightarrow>
            input_value (updateCounter cfg pg) = input_value pg
            \<and> counter (updateCounter cfg pg)
                = \<lparr>shown_length = length (input_value pg), shown_limit = Fin (of_nat n)\<rparr>)
       \<and> INPUT_LIMIT Undefined = Inr (Fin 350)
       \<and> (0 < m \<longrightarrow> INPUT_LIMIT (Num (Fin (of_nat m))) = Inr (Fin (of_nat m)))"
  using assms
  by (auto simp: updateCounter_def Let_def truncate_rat_of_nat INPUT_LIMIT_def js_or_def)

theorem updateCounter_truncates_witness:
  "input_value (updateCounter \<lparr>api_base = [], input_limit = Fin 4\<rparr> sample_page) = lit ''abcd''
   \<and> counter (updateCounter \<lparr>api_base = [], input_limit = Fin 4\<rparr> sample_page)
     = \<lparr>shown_length = 4, shown_limit = Fin 4\<rparr>
   \<and> INPUT_LIMIT (Num (Fin 4)) = Inr (Fin 4)
   \<and> load_config Undefined (Num (Fin 4)) = Inr \<lparr>api_base = [], input_limit = Fin 4\<rparr>"
proof -
  define cfg where "cfg = \<lparr>api_base = [], input_limit = Fin 4\<rparr>"
  have h: "input_limit cfg = Fin (of_nat 4)"
    by (simp add: cfg_def)
  have len: "4 < length (input_value sample_page)"
    by (simp add: sample_page_def lit_def)
  have v: "take 4 (input_value sample_page) = lit ''abcd''"
    by (simp add: sample_page_def lit_def)
  from updateCounter_truncates [OF h, of sample_page 4] len
  have "input_value (updateCounter cfg sample_page) = take 4 (input_value sample_page)
      \<and> counter (updateCounter cfg sample_page) = \<lparr>shown_length = 4, shown_limit = Fin (of_nat 4)\<rparr>
      \<and> INPUT_LIMIT (Num (Fin (of_nat 4))) = Inr (Fin (of_nat 4))"
    by simp
  then have a: "input_value (updateCounter cfg sample_page) = lit ''abcd''
      \<and> counter (updateCounter cfg sample_page) = \<lparr>shown_length = 4, shown_limit = Fin 4\<rparr>
      \<and> INPUT_LIMIT (Num (Fin 4)) = Inr (Fin 4)"
    unfolding v by simp
  then have "load_config Undefined (Num (Fin 4)) = Inr cfg"
    by (simp add: load_config_def API_BASE_def js_or_def trim_def cfg_def)
  with a show ?thesis
    unfolding cfg_def by simp
qed

lemma StringToNumber_not_numeric:
  assumes "trim s = c # t" "\<not> is_digit c" "c \<noteq> 0x2B" "c \<noteq> 0x2D" "c \<noteq> 0x2E" "c \<noteq> 0x49"
  shows "StringToNumber s = NaN"
proof -
  have "\<not> (0x30 \<le> c \<and> c \<le> 0x39)"
    using assms(2) by (auto simp: is_digit_def digit_of_def unat_sub word_le_nat_alt split: if_splits)
  then have "c \<noteq> 0x30" by auto
  then have nd: "non_decimal (c # t) = None"
    by (simp add: non_decimal_def split: list.splits)
  have "c # t \<noteq> lit ''Infinity''"
    using assms(6) by (auto simp: lit_def)
  then have "unsigned_decimal (c # t) = NaN"
    using assms by (simp add: unsigned_decimal_def Let_def)
  then show ?thesis
    using assms nd by (simp add: StringToNumber_def)
qed

lemma updateCounter_NaN:
  "input_limit cfg = NaN \<Longrightarrow> input_value (updateCounter cfg pg) = input_value pg"
  by (simp add: updateCounter_def Let_def)

lemma updateCounter_small:
  "input_limit cfg = Fin 1 \<Longrightarrow> input_value (updateCounter cfg pg) = take 1 (input_value pg)"
  "input_limit cfg = Fin 0 \<Longrightarrow> input_value (updateCounter cfg pg) = []"
  by (auto simp: updateCounter_def Let_def truncate_rat_def)

lemma load_config_limit:
  "load_config wa w = Inr cfg \<Longrightarrow> INPUT_LIMIT w = Inr (input_limit cfg)"
  by (auto simp: load_config_def split: sum.splits)

text \<open>
  C10 as the claim has it does not hold: the global \<^verbatim>\<open>true\<close> is no number, and the limit
  is not NaN but 1, at which the input is cut.
\<close>

theorem true_limit_counterexample:
  "INPUT_LIMIT (Bool True) = Inr (Fin 1)
   \<and> INPUT_LIMIT (Bool True) \<noteq> Inr NaN
   \<and> load_config Undefined (Bool True) = Inr \<lparr>api_base = [], input_limit = Fin 1\<rparr>
   \<and> input_value (updateCounter \<lparr>api_base = [], input_limit = Fin 1\<rparr> sample_page) = lit ''a''"
proof -
  have a: "INPUT_LIMIT (Bool True) = Inr (Fin 1)"
    by (simp add: INPUT_LIMIT_def js_or_def)
  have b: "load_config Undefined (Bool True) = Inr \<lparr>api_base = [], input_limit = Fin 1\<rparr>"
    by (simp add: load_config_def a API_BASE_def js_or_def trim_def)
  have "input_value (updateCounter \<lparr>api_base = [], input_limit = Fin 1\<rparr> sample_page)
      = take 1 (input_value sample_page)"
    by (rule updateCounter_small) simp
  then have c: "input_value (updateCounter \<lparr>api_base = [], input_limit = Fin 1\<rparr> sample_page) = lit ''a''"
    by (simp add: sample_page_def lit_def)
  from a b c show ?thesis by simp
qed

text \<open>
  C10, amended. The limit is \<^verbatim>\<open>Number(window.INPUT_LIMIT || 350)\<close>: 350 for every falsy
  global (absent, 0, the empty string among them). A truthy global that \<^verbatim>\<open>Number\<close> makes
  NaN (a string whose first character after the leading blanks can start no numeric literal:
  no digit, sign, point or \<^verbatim>\<open>I\<close>; a plain object with no \<^verbatim>\<open>toString\<close> of its own) gives
  the limit NaN, with which the comparison of \<^verbatim>\<open>updateCounter\<close> is false for every length
  and the input is left as it is. Other values that are no numbers are converted:
  \<^verbatim>\<open>true\<close> gives the limit 1, a blank string and the empty array give 0, and the input is
  cut there; on an object with an own \<^verbatim>\<open>toString\<close> property \<^verbatim>\<open>Number\<close> throws.
\<close>

theorem INPUT_LIMIT_conversion:
  "(\<not> truthy w \<longrightarrow> INPUT_LIMIT w = Inr (Fin 350))
   \<and> INPUT_LIMIT w = ToNumber (js_or w (Num (Fin 350)))
   \<and> INPUT_LIMIT Undefined = Inr (Fin 350) \<and> INPUT_LIMIT (Num (Fin 0)) = Inr (Fin 350)
   \<and> INPUT_LIMIT (Str []) = Inr (Fin 350)
   \<and> (trim s = c # t \<and> \<not> is_digit c \<and> c \<noteq> 0x2B \<and> c \<noteq> 0x2D \<and> c \<noteq> 0x2E \<and> c \<noteq> 0x49
        \<longrightarrow> INPUT_LIMIT (Str s) = Inr NaN)
   \<and> (map_of kvs (lit ''toString'') = None \<longrightarrow> INPUT_LIMIT (Obj kvs) = Inr NaN)
   \<and> (map_of kvs (lit ''toString'') \<noteq> None \<longrightarrow> INPUT_LIMIT (Obj kvs) = Inl TypeError)
   \<and> (load_config wa w = Inr cfg \<and> INPUT_LIMIT w = Inr NaN \<longrightarrow>
        \<not> length_exceeds n (input_limit cfg)
        \<and> input_value (updateCounter cfg pg) = input_value pg)
   \<and> INPUT_LIMIT (Bool True) = Inr (Fin 1)
   \<and> (b \<noteq> [] \<and> trim b = [] \<longrightarrow> INPUT_LIMIT (Str b) = Inr (Fin 0))
   \<and> INPUT_LIMIT (Arr []) = Inr (Fin 0)
   \<and> (load_config wa w = Inr cfg \<and> INPUT_LIMIT w = Inr (Fin 1) \<longrightarrow>
        input_value (updateCounter cfg pg) = take 1 (input_value pg))
   \<and> (load_config wa w = Inr cfg \<and> INPUT_LIMIT w = Inr (Fin 0) \<longrightarrow>
        input_value (updateCounter cfg pg) = [])"
proof -
  have 1: "INPUT_LIMIT (Str s) = Inr NaN"
    if "trim s = c # t" "\<not> is_digit c" "c \<noteq> 0x2B" "c \<noteq> 0x2D" "c \<noteq> 0x2E" "c \<noteq> 0x49"
  proof -
    from that(1) have "s \<noteq> []" by (auto simp: trim_def)
    then show ?thesis
      using StringToNumber_not_numeric [OF that] by (simp add: INPUT_LIMIT_truthy)
  qed
  have 2: "INPUT_LIMIT (Str b) = Inr (Fin 0)" if "b \<noteq> []" "trim b = []"
    using that by (simp add: INPUT_LIMIT_truthy StringToNumber_def)
  have 3: "\<not> length_exceeds n (input_limit cfg) \<and> input_value (updateCounter cfg pg) = input_value pg"
    if "load_config wa w = Inr cfg" "INPUT_LIMIT w = Inr NaN"
  proof -
    from load_config_limit [OF that(1)] that(2) have "input_limit cfg = NaN" by simp
    then show ?thesis by (simp add: updateCounter_NaN)
  qed
  have 4: "input_value (updateCounter cfg pg) = take 1 (input_value pg)"
    if "load_config wa w = Inr cfg" "INPUT_LIMIT w = Inr (Fin 1)"
  proof -
    from load_config_limit [OF that(1)] that(2) have "input_limit cfg = Fin 1" by simp
    then show ?thesis by (rule updateCounter_small)
  qed
  have 5: "input_value (updateCounter cfg pg) = []"
    if "load_config wa w = Inr cfg" "INPUT_LIMIT w = Inr (Fin 0)"
  proof -
    from load_config_limit [OF that(1)] that(2) have "input_limit cfg = Fin 0" by simp
    then show ?thesis by (rule updateCounter_small)
  qed
  have 6: "INPUT_LIMIT w = ToNumber (js_or w (Num (Fin 350)))"
    "INPUT_LIMIT Undefined = Inr (Fin 350)" "INPUT_LIMIT (Num (Fin 0)) = Inr (Fin 350)"
    "INPUT_LIMIT (Str []) = Inr (Fin 350)" "INPUT_LIMIT (Bool True) = Inr (Fin 1)"
    "INPUT_LIMIT (Arr []) = Inr (Fin 0)"
    by (simp_all add: INPUT_LIMIT_def js_or_def)
  have 7: "map_of kvs (lit ''toString'') = None \<longrightarrow> INPUT_LIMIT (Obj kvs) = Inr NaN"
    "map_of kvs (lit ''toString'') \<noteq> None \<longrightarrow> INPUT_LIMIT (Obj kvs) = Inl TypeError"
    by (simp_all add: INPUT_LIMIT_def js_or_def)
  from 1 2 3 4 5 6 7 INPUT_LIMIT_falsy [of w] show ?thesis
    by blast
qed

theorem INPUT_LIMIT_conversion_witness:
  "INPUT_LIMIT (Bool False) = Inr (Fin 350)
   \<and> INPUT_LIMIT (Str (lit '' abc'')) = Inr NaN
   \<and> input_value (updateCounter \<lparr>api_base = [], input_limit = NaN\<rparr> sample_page)
       = input_value sample_page
   \<and> INPUT_LIMIT (Str (lit '' '')) = Inr (Fin 0)
   \<and> input_value (updateCounter \<lparr>api_base = [], input_limit = Fin 0\<rparr> sample_page) = []
   \<and> INPUT_LIMIT (Obj []) = Inr NaN"
proof -
  let ?abc = "Str (lit '' abc'')" and ?sp = "Str (lit '' '')"
  define cn where "cn = \<lparr>api_base = [], input_limit = NaN\<rparr>"
  define c0 where "c0 = \<lparr>api_base = [], input_limit = Fin 0\<rparr>"
  have t: "trim (lit '' abc'') = 0x61 # lit ''bc''"
    by code_simp
  have d: "\<not> is_digit 0x61 \<and> (0x61 :: 16 word) \<noteq> 0x2B \<and> (0x61 :: 16 word) \<noteq> 0x2D
      \<and> (0x61 :: 16 word) \<noteq> 0x2E \<and> (0x61 :: 16 word) \<noteq> 0x49"
    by code_simp
  have f: "\<not> truthy (Bool False)"
    by simp
  have e: "lit '' '' \<noteq> [] \<and> trim (lit '' '') = []"
    by (simp add: lit_def trim_def is_space_def)
  have m: "map_of [] (lit ''toString'') = (None :: jsval option)"
    by simp
  note a = INPUT_LIMIT_conversion [of "Bool False" "lit '' abc''" "0x61" "lit ''bc''" "[]" Undefined cn 6
      sample_page "lit '' ''"]
  from a f have 1: "INPUT_LIMIT (Bool False) = Inr (Fin 350)"
    by blast
  from a t d have 2: "INPUT_LIMIT ?abc = Inr NaN"
    by blast
  from a e have 4: "INPUT_LIMIT ?sp = Inr (Fin 0)"
    by blast
  from a m have 6: "INPUT_LIMIT (Obj []) = Inr NaN"
    by blast
  have ln: "load_config Undefined ?abc = Inr cn"
    by (simp add: load_config_def 2 API_BASE_def js_or_def trim_def cn_def)
  have l0: "load_config Undefined ?sp = Inr c0"
    by (simp add: load_config_def 4 API_BASE_def js_or_def trim_def c0_def)
  from INPUT_LIMIT_conversion [of ?abc "[]" 0 "[]" "[]" Undefined cn 6 sample_page "[]"] ln 2
  have 3: "input_value (updateCounter cn sample_page) = input_value sample_page"
    by blast
  from INPUT_LIMIT_conversion [of ?sp "[]" 0 "[]" "[]" Undefined c0 6 sample_page "[]"] l0 4
  have 5: "input_value (updateCounter c0 sample_page) = []"
    by blast
  from 1 2 3 4 5 6 show ?thesis
    unfolding cn_def c0_def by blast
qed

section \<open>Properties of sending\<close>

lemma send_Ignored: "send_start cfg pg = (pg', Ignored) \<Longrightarrow> send cfg oc pg = pg'"
  by (simp add: send_def)

lemma send_Awaiting: "send_start cfg pg = (pg', Awaiting req) \<Longrightarrow> send cfg oc pg = fst (send_settle oc pg')"
  by (simp add: send_def)

text \<open>
  The guard of \<^verbatim>\<open>send\<close>. Where a request is loading, or the input is empty once trimmed,
  \<^verbatim>\<open>send\<close> changes nothing on the page: no message, no request, the same state. Else, on
  a transcript of strings, it gives one request to \<^verbatim>\<open>fetch\<close>, and the whole call adds that
  one request and no other. What it does on a transcript with a content that is no string
  is looked at further down.
\<close>

lemma send_guard:
  "(loading (st pg) \<or> trim (input_value pg) = [] \<longrightarrow>
      send_start cfg pg = (pg, Ignored) \<and> send cfg oc pg = pg)
   \<and> (\<not> loading (st pg) \<and> trim (input_value pg) \<noteq> [] \<and> string_contents (messages (st pg)) \<longrightarrow>
      (\<exists>pg'. send_start cfg pg =
          (pg', Awaiting (chat_request cfg
             (messages (st pg) @ [\<lparr>role = User, content = Str (trim (input_value pg))\<rparr>])))
         \<and> requests pg' = requests pg @ [chat_request cfg
             (messages (st pg) @ [\<lparr>role = User, content = Str (trim (input_value pg))\<rparr>])])
      \<and> requests (send cfg oc pg) = requests pg @ [chat_request cfg
             (messages (st pg) @ [\<lparr>role = User, content = Str (trim (input_value pg))\<rparr>])])"
proof -
  have a: "send_start cfg pg = (pg, Ignored) \<and> send cfg oc pg = pg"
    if "loading (st pg) \<or> trim (input_value pg) = []"
  proof -
    from that have "send_start cfg pg = (pg, Ignored)"
      by (auto simp: send_start_ignored)
    then show ?thesis by (simp add: send_Ignored)
  qed
  have b: "(\<exists>pg'. send_start cfg pg =
          (pg', Awaiting (chat_request cfg
             (messages (st pg) @ [\<lparr>role = User, content = Str (trim (input_value pg))\<rparr>])))
         \<and> requests pg' = requests pg @ [chat_request cfg
             (messages (st pg) @ [\<lparr>role = User, content = Str (trim (input_value pg))\<rparr>])])
      \<and> requests (send cfg oc pg) = requests pg @ [chat_request cfg
             (messages (st pg) @ [\<lparr>role = User, content = Str (trim (input_value pg))\<rparr>])]"
    if "\<not> loading (st pg)" "trim (input_value pg) \<noteq> []" "string_contents (messages (st pg))"
  proof -
    from send_start_awaiting [OF that(2) that(1) that(3), of cfg]
    obtain pg' where s: "send_start cfg pg =
          (pg', Awaiting (chat_request cfg
             (messages (st pg) @ [\<lparr>role = User, content = Str (trim (input_value pg))\<rparr>])))"
      and r: "requests pg' = requests pg @ [chat_request cfg
             (messages (st pg) @ [\<lparr>role = User, content = Str (trim (input_value pg))\<rparr>])]"
      by blast
    from s have "send cfg oc pg = fst (send_settle oc pg')"
      by (rule send_Awaiting)
    with r have "requests (send cfg oc pg) = requests pg @ [chat_request cfg
             (messages (st pg) @ [\<lparr>role = User, content = Str (trim (input_value pg))\<rparr>])]"
      by (simp add: send_settle_requests)
    with s r show ?thesis by blast
  qed
  from a b show ?thesis by blast
qed

lemma send_guard_sample:
  "send_start default_config loading_page = (loading_page, Ignored)
   \<and> send default_config NetworkError loading_page = loading_page
   \<and> send_start default_config blank_page = (blank_page, Ignored)
   \<and> requests (send default_config NetworkError sample_page)
       = [chat_request default_config [greeting, \<lparr>role = User, content = Str (lit ''abcdef'')\<rparr>]]"
proof -
  have l: "loading (st loading_page)"
    by (simp add: loading_page_def)
  have e: "trim (input_value blank_page) = []"
    by (simp add: blank_page_def sample_page_def trim_def lit_def is_space_def)
  have v: "\<not> loading (st sample_page) \<and> trim (input_value sample_page) \<noteq> []
      \<and> string_contents (messages (st sample_page))"
    by (simp add: sample_page_def initial_state_def greeting_def string_contents_def
        trim_def lit_def is_space_def)
  have t: "trim (input_value sample_page) = lit ''abcdef''"
    by (simp add: sample_page_def trim_def lit_def is_space_def)
  have m: "messages (st sample_page) = [greeting]" "requests sample_page = []"
    by (simp_all add: sample_page_def initial_state_def)
  from send_guard [of loading_page default_config NetworkError] l
  have 1: "send_start default_config loading_page = (loading_page, Ignored)
      \<and> send default_config NetworkError loading_page = loading_page"
    by blast
  from send_guard [of blank_page default_config NetworkError] e
  have 2: "send_start default_config blank_page = (blank_page, Ignored)"
    by blast
  from send_guard [of sample_page default_config NetworkError] v
  have "requests (send default_config NetworkError sample_page) = requests sample_page @
      [chat_request default_config
        (messages (st sample_page) @ [\<lparr>role = User, content = Str (trim (input_value sample_page))\<rparr>])]"
    by blast
  then have 3: "requests (send default_config NetworkError sample_page)
       = [chat_request default_config [greeting, \<lparr>role = User, content = Str (lit ''abcdef'')\<rparr>]]"
    by (simp add: t m)
  from 1 2 3 show ?thesis by blast
qed

lemma run_snoc: "run cfg doc (evs @ [ev]) = step cfg (run cfg doc evs) ev"
  by (simp add: run_def)

lemma startup_state: "st (startup cfg doc) = initial_state"
  by (simp add: startup_def Let_def render_fields updateCounter_fields)

lemma startup_requests: "requests (startup cfg doc) = []"
  by (simp add: startup_def Let_def render_fields updateCounter_fields)

lemma hello_session:
  "st (page_of (run default_config sample_page [Edit hello, Submit, Settle oc]))
     = \<lparr>messages = [greeting, \<lparr>role = User, content = Str hello\<rparr>,
          \<lparr>role = Assistant,
           content = (case try_answer oc of Some a \<Rightarrow> a | None \<Rightarrow> Str error_notice)\<rparr>],
        loading = False\<rparr>"
proof -
  let ?p0 = "startup default_config sample_page"
  let ?p1 = "updateCounter default_config (?p0\<lparr>input_value := hello\<rparr>)"
  have i: "input_value ?p1 = hello"
    by (simp add: updateCounter_def Let_def default_config_def
        hello_def lit_def)
  have s1: "st ?p1 = initial_state"
    by (simp add: updateCounter_fields startup_state)
  have t: "trim hello = hello"
    by (simp add: hello_def trim_def lit_def is_space_def)
  have sc: "string_contents (messages (st ?p1))"
    by (simp add: s1 initial_state_def greeting_def string_contents_def)
  have nl: "\<not> loading (st ?p1)" and ne: "trim (input_value ?p1) \<noteq> []"
    by (simp_all add: s1 initial_state_def i t) (simp add: hello_def lit_def)
  from send_start_awaiting [OF ne nl sc, of default_config]
  obtain pg' req where a: "send_start default_config ?p1 = (pg', Awaiting req)"
    by blast
  from send_start_cases [OF a] ne nl
  have s2: "st pg' = \<lparr>messages = [greeting, \<lparr>role = User, content = Str hello\<rparr>], loading = True\<rparr>"
    by (simp add: s1 initial_state_def i t)
  have r: "run default_config sample_page [Edit hello, Submit, Settle oc]
      = \<lparr>page_of = fst (send_settle oc pg'), in_flight = 0\<rparr>"
    using a by (simp add: run_def)
  show ?thesis
    by (simp add: r send_settle_state s2)
qed

text \<open>
  C2 as the spec has it does not hold: a response whose \<^verbatim>\<open>content\<close> is there but empty
  gets the notice, and one whose \<^verbatim>\<open>content\<close> is empty and whose
  \<^verbatim>\<open>choices[0].message.content\<close> is not gets the latter.
\<close>

theorem empty_content_counterexample:
  "top_content empty_content = Str []
   \<and> top_content empty_content \<noteq> Undefined
   \<and> answer_of empty_content = Str empty_notice
   \<and> st (page_of (run default_config sample_page
        [Edit hello, Submit, Settle (Response 200 (Some empty_content))]))
      = \<lparr>messages = [greeting, \<lparr>role = User, content = Str hello\<rparr>,
           \<lparr>role = Assistant, content = Str empty_notice\<rparr>],
         loading = False\<rparr>"
proof -
  have a: "top_content empty_content = Str []"
    by (simp add: top_content_def empty_content_def)
  have b: "choice_content empty_content = Undefined"
    by (simp add: choice_content_def empty_content_def lit_def)
  have c: "answer_of empty_content = Str empty_notice"
    by (simp add: answer_of_cases a b)
  have "try_answer (Response 200 (Some empty_content)) = Some (Str empty_notice)"
    by (simp add: resp_ok_def c)
  with a c show ?thesis
    by (simp add: hello_session)
qed

text \<open>
  C2, amended. On a response with a 2xx status and a JSON body \<^verbatim>\<open>send\<close> appends one
  assistant message and sets \<^verbatim>\<open>loading\<close> to false. Its content is the body's top-level
  \<^verbatim>\<open>content\<close> where that is truthy (for a string: not empty), else
  \<^verbatim>\<open>choices[0].message.content\<close> where that is truthy, else the notice: the notice stands in
  exactly when both fields are absent or falsy. From the greeting alone, \<^verbatim>\<open>Hello\<close> against
  \<^verbatim>\<open>{"content":"Hi there"}\<close> ends with the greeting, the user's \<^verbatim>\<open>Hello\<close> and the
  assistant's \<^verbatim>\<open>Hi there\<close>.
\<close>

theorem answer_fallback:
  "(resp_ok status \<longrightarrow>
      st (fst (send_settle (Response status (Some data)) pg))
        = \<lparr>messages = messages (st pg) @ [\<lparr>role = Assistant, content = answer_of data\<rparr>],
           loading = False\<rparr>)
   \<and> answer_of data =
        (if truthy (top_content data) then top_content data
         else if truthy (choice_content data) then choice_content data
         else Str empty_notice)
   \<and> st (page_of (run default_config sample_page
        [Edit hello, Submit, Settle (Response 200 (Some hi_there))]))
      = \<lparr>messages = [greeting, \<lparr>role = User, content = Str hello\<rparr>,
           \<lparr>role = Assistant, content = Str (lit ''Hi there'')\<rparr>],
         loading = False\<rparr>"
proof -
  have "top_content hi_there = Str (lit ''Hi there'')"
    by (simp add: top_content_def hi_there_def)
  then have "answer_of hi_there = Str (lit ''Hi there'')"
    by (simp add: answer_of_cases lit_def)
  then have "try_answer (Response 200 (Some hi_there)) = Some (Str (lit ''Hi there''))"
    by (simp add: resp_ok_def)
  then show ?thesis
    by (simp add: hello_session send_settle_state answer_of_cases)
qed

theorem answer_fallback_witness:
  "st (fst (send_settle (Response 200 (Some choice_only)) sample_page))
     = \<lparr>messages = [greeting, \<lparr>role = Assistant, content = Str (lit ''x'')\<rparr>], loading = False\<rparr>
   \<and> top_content choice_only = Str []
   \<and> choice_content choice_only = Str (lit ''x'')"
proof -
  have ok: "resp_ok 200"
    by (simp add: resp_ok_def)
  have a: "top_content choice_only = Str []"
    by (simp add: top_content_def choice_only_def)
  have b: "choice_content choice_only = Str (lit ''x'')"
    by (simp add: choice_content_def choice_only_def lit_def)
  have m: "messages (st sample_page) = [greeting]"
    by (simp add: sample_page_def initial_state_def)
  from answer_fallback [of 200 choice_only sample_page] ok
  have "st (fst (send_settle (Response 200 (Some choice_only)) sample_page))
        = \<lparr>messages = messages (st sample_page) @ [\<lparr>role = Assistant, content = answer_of choice_only\<rparr>],
           loading = False\<rparr>"
    and "answer_of choice_only =
        (if truthy (top_content choice_only) then top_content choice_only
         else if truthy (choice_content choice_only) then choice_content choice_only
         else Str empty_notice)"
    by blast+
  then show ?thesis
    by (simp add: a b m lit_def)
qed

text \<open>
  C3. Where the exchange fails (\<^verbatim>\<open>fetch\<close> rejects, the body of a 2xx response is no JSON,
  or the status is not 2xx, whatever the body), \<^verbatim>\<open>send\<close> appends the one assistant message
  with the error notice, logs the error and sets \<^verbatim>\<open>loading\<close> back to false; the three
  kinds of failure end in the same state.
\<close>

theorem failure_appends_error:
  assumes "oc = NetworkError \<or> (\<exists>status. oc = Response status None)
           \<or> (\<exists>status body. oc = Response status body \<and> \<not> resp_ok status)"
  shows "st (fst (send_settle oc pg))
           = \<lparr>messages = messages (st pg) @ [\<lparr>role = Assistant, content = Str error_notice\<rparr>],
              loading = False\<rparr>
       \<and> console_errors (fst (send_settle oc pg)) = console_errors pg + 1
       \<and> requests (fst (send_settle oc pg)) = requests pg
       \<and> (send_start cfg pg0 = (pg, Awaiting req) \<longrightarrow>
            st (send cfg oc pg0)
              = \<lparr>messages = messages (st pg0)
                   @ [\<lparr>role = User, content = Str (trim (input_value pg0))\<rparr>,
                      \<lparr>role = Assistant, content = Str error_notice\<rparr>],
                 loading = False\<rparr>)"
proof -
  from assms have n: "try_answer oc = None"
    by auto
  have "st (send cfg oc pg0)
              = \<lparr>messages = messages (st pg0)
                   @ [\<lparr>role = User, content = Str (trim (input_value pg0))\<rparr>,
                      \<lparr>role = Assistant, content = Str error_notice\<rparr>],
                 loading = False\<rparr>"
    if a: "send_start cfg pg0 = (pg, Awaiting req)"
  proof -
    from send_start_cases [OF a]
    have "st pg = \<lparr>messages = messages (st pg0)
        @ [\<lparr>role = User, content = Str (trim (input_value pg0))\<rparr>], loading = True\<rparr>"
      by auto
    then show ?thesis
      by (simp add: send_Awaiting [OF a] send_settle_state n)
  qed
  then show ?thesis
    by (simp add: send_settle_state send_settle_console send_settle_requests n)
qed

theorem failure_appends_error_witness:
  "st (fst (send_settle (Response 500 (Some hi_there)) sample_page))
     = \<lparr>messages = [greeting, \<lparr>role = Assistant, content = Str error_notice\<rparr>], loading = False\<rparr>
   \<and> st (fst (send_settle NetworkError sample_page))
     = \<lparr>messages = [greeting, \<lparr>role = Assistant, content = Str error_notice\<rparr>], loading = False\<rparr>
   \<and> st (fst (send_settle (Response 200 None) sample_page))
     = \<lparr>messages = [greeting, \<lparr>role = Assistant, content = Str error_notice\<rparr>], loading = False\<rparr>"
proof -
  have m: "messages (st sample_page) = [greeting]"
    by (simp add: sample_page_def initial_state_def)
  have h1: "Response 500 (Some hi_there) = NetworkError
      \<or> (\<exists>status. Response 500 (Some hi_there) = Response status None)
      \<or> (\<exists>status body. Response 500 (Some hi_there) = Response status body \<and> \<not> resp_ok status)"
    by (simp add: resp_ok_def)
  have h2: "NetworkError = NetworkError
      \<or> (\<exists>status. NetworkError = Response status None)
      \<or> (\<exists>status body. NetworkError = Response status body \<and> \<not> resp_ok status)"
    by simp
  have h3: "Response 200 None = NetworkError
      \<or> (\<exists>status. Response 200 None = Response status None)
      \<or> (\<exists>status body. Response 200 None = Response status body \<and> \<not> resp_ok status)"
    by simp
  from failure_appends_error [OF h1, of sample_page default_config sample_page "chat_request default_config []"]
    failure_appends_error [OF h2, of sample_page default_config sample_page "chat_request default_config []"]
    failure_appends_error [OF h3, of sample_page default_config sample_page "chat_request default_config []"]
  show ?thesis
    by (simp add: m)
qed

lemma render_messages_ok_length:
  "snd (render_messages ms) = None \<Longrightarrow> length (fst (render_messages ms)) = length ms"
  by (induction ms) (auto split: sum.splits prod.splits)

lemma render_ok_view:
  "render pg = (pg', None) \<Longrightarrow>
     view_nodes pg' = fst (render_messages (messages (st pg)))
                      @ (if loading (st pg) then [typing_indicator] else [])
     \<and> length (fst (render_messages (messages (st pg)))) = length (messages (st pg))"
  using render_messages_ok_length [of "messages (st pg)"]
  by (auto simp: render_def split: prod.splits option.splits)

lemma send_start_view:
  assumes "send_start cfg pg = (pg', Awaiting req)"
  shows "view_nodes pg' = fst (render_messages (messages (st pg'))) @ [typing_indicator]
       \<and> length (fst (render_messages (messages (st pg')))) = length (messages (st pg'))"
proof -
  let ?u = "\<lparr>role = User, content = Str (trim (input_value pg))\<rparr>"
  let ?pg3 = "set_loading True (updateCounter cfg ((push_message ?u pg)\<lparr>input_value := []\<rparr>))"
  from send_start_cases [OF assms] have v: "trim (input_value pg) \<noteq> []" "\<not> loading (st pg)"
    by auto
  obtain pg4 e where r: "render ?pg3 = (pg4, e)" by (cases "render ?pg3")
  with assms v have e: "e = None" and p: "pg' = pg4\<lparr>requests := requests pg4 @ [req]\<rparr>"
    by (auto simp: send_start_def Let_def split: option.splits)
  have l: "loading (st ?pg3)"
    by (simp add: set_loading_def)
  have "st pg4 = st ?pg3"
    using render_fields(1) [of ?pg3] r by simp
  with render_ok_view [of ?pg3 pg4] r e l p show ?thesis
    by simp
qed

lemma step_messages:
  "\<exists>ys. messages (st (page_of (step cfg s ev))) = messages (st (page_of s)) @ ys"
proof (cases ev)
  case (Edit v)
  then show ?thesis by (simp add: updateCounter_fields)
next
  case Submit
  obtain pg' r where a: "send_start cfg (page_of s) = (pg', r)"
    by (cases "send_start cfg (page_of s)")
  from send_start_cases [OF a] have "\<exists>ys. messages (st pg') = messages (st (page_of s)) @ ys"
    by auto
  with a Submit show ?thesis
    by (cases r) auto
next
  case (Settle oc)
  then show ?thesis by (simp add: send_settle_state)
next
  case ThemeClick
  then show ?thesis by (simp add: toggleTheme_fields)
qed

lemma run_append: "run cfg doc (evs @ evs') = foldl (step cfg) (run cfg doc evs) evs'"
  by (simp add: run_def)

lemma foldl_step_messages:
  "\<exists>ys. messages (st (page_of (foldl (step cfg) s evs))) = messages (st (page_of s)) @ ys"
proof (induction evs arbitrary: s)
  case Nil
  then show ?case by simp
next
  case (Cons ev evs)
  obtain ys where a: "messages (st (page_of (step cfg s ev))) = messages (st (page_of s)) @ ys"
    using step_messages by blast
  obtain zs where "messages (st (page_of (foldl (step cfg) (step cfg s ev) evs)))
      = messages (st (page_of (step cfg s ev))) @ zs"
    using Cons.IH by blast
  with a show ?case by simp
qed

lemma run_messages_append:
  "\<exists>ys. messages (st (page_of (run cfg doc (evs @ evs')))) = messages (st (page_of (run cfg doc evs))) @ ys"
  by (simp only: run_append foldl_step_messages)

lemma run_greeting_first:
  "\<exists>ys. messages (st (page_of (run cfg doc evs))) = greeting # ys"
proof -
  have "messages (st (page_of (run cfg doc []))) = [greeting]"
    by (simp add: run_def startup_state initial_state_def)
  with run_messages_append [of cfg doc "[]" evs] show ?thesis
    by auto
qed

lemma history_tl: "history ms = tl ms"
  by (simp add: history_def drop_Suc)

lemma last12_facts:
  "length (last12 h) = min 12 (length h)"
  "12 < length h \<longrightarrow> length (last12 h) = 12 \<and> last12 h = drop (length h - 12) h"
  "length h \<le> 12 \<longrightarrow> last12 h = h"
  "\<exists>older. h = older @ last12 h"
proof -
  show "\<exists>older. h = older @ last12 h"
    unfolding last12_def by (metis append_take_drop_id)
qed (auto simp: last12_def)

text \<open>
  The body of a request. Where \<^verbatim>\<open>send\<close> gives a request to \<^verbatim>\<open>fetch\<close>, the \<^verbatim>\<open>messages\<close> of its body are the
  transcript (the user's new message included) without its first element, cut to its last
  12: all of them where there are at most 12, exactly the last 12 where there are more. The
  page shows a bubble for every message of the transcript, and the typing indicator. In a
  session the first element is the greeting.
\<close>

lemma request_last12:
  assumes "send_start cfg pg = (pg', Awaiting req)"
  shows "body_messages req = last12 (history (messages (st pg')))
       \<and> messages (st pg') = messages (st pg) @ [\<lparr>role = User, content = Str (trim (input_value pg))\<rparr>]
       \<and> history (messages (st pg')) = tl (messages (st pg'))
       \<and> length (body_messages req) = min 12 (length (history (messages (st pg'))))
       \<and> (12 < length (history (messages (st pg'))) \<longrightarrow>
            length (body_messages req) = 12
            \<and> body_messages req
                = drop (length (history (messages (st pg'))) - 12) (history (messages (st pg'))))
       \<and> (length (history (messages (st pg'))) \<le> 12 \<longrightarrow>
            body_messages req = history (messages (st pg')))
       \<and> (\<exists>older. history (messages (st pg')) = older @ body_messages req)
       \<and> view_nodes pg' = fst (render_messages (messages (st pg'))) @ [typing_indicator]
       \<and> length (view_nodes pg') = length (messages (st pg')) + 1
       \<and> (\<exists>ys. messages (st (page_of (run cfg doc evs))) = greeting # ys)"
proof -
  from send_start_cases [OF assms]
  have s: "st pg' = \<lparr>messages = messages (st pg) @ [\<lparr>role = User, content = Str (trim (input_value pg))\<rparr>],
                    loading = True\<rparr>"
    and r: "req = chat_request cfg (messages (st pg'))"
    by auto
  have b: "body_messages req = last12 (history (messages (st pg')))"
    by (simp add: r chat_request_def)
  have v: "view_nodes pg' = fst (render_messages (messages (st pg'))) @ [typing_indicator]"
    "length (view_nodes pg') = length (messages (st pg')) + 1"
    using send_start_view [OF assms] by simp_all
  show ?thesis
    unfolding b
    using s v run_greeting_first [of cfg doc evs] last12_facts [of "history (messages (st pg'))"]
    by (simp add: history_tl)
qed

lemma request_last12_sample:
  "body_messages (chat_request default_config (messages (st long_page) @ [\<lparr>role = User, content = Str (lit ''abcdef'')\<rparr>]))
     = drop 3 (numbered 14) @ [\<lparr>role = User, content = Str (lit ''abcdef'')\<rparr>]
   \<and> length (body_messages (chat_request default_config (messages (st long_page) @ [\<lparr>role = User, content = Str (lit ''abcdef'')\<rparr>]))) = 12"
proof -
  let ?u = "\<lparr>role = User, content = Str (lit ''abcdef'')\<rparr>"
  have t: "trim (input_value long_page) = lit ''abcdef''"
    by (simp add: long_page_def sample_page_def trim_def lit_def is_space_def)
  have m: "messages (st long_page) = greeting # numbered 14"
    by (simp add: long_page_def)
  have v: "trim (input_value long_page) \<noteq> []" "\<not> loading (st long_page)"
    "string_contents (messages (st long_page))"
    by (simp_all add: t m) (simp_all add: lit_def long_page_def string_contents_def greeting_def
        numbered_def list_all_iff)
  from send_start_awaiting [OF v, of default_config]
  obtain pg' where a: "send_start default_config long_page
      = (pg', Awaiting (chat_request default_config (messages (st long_page) @ [?u])))"
    by (auto simp: t)
  have l: "length (numbered 14) = 14"
    by (simp add: numbered_def)
  have h: "history (messages (st long_page) @ [?u]) = numbered 14 @ [?u]"
    by (simp add: m history_tl)
  from request_last12 [OF a, of sample_page "[]"] have
    "body_messages (chat_request default_config (messages (st long_page) @ [?u]))
      = last12 (history (messages (st pg')))"
    and "messages (st pg') = messages (st long_page) @ [?u]"
    by (simp_all add: t)
  then have "body_messages (chat_request default_config (messages (st long_page) @ [?u]))
      = last12 (numbered 14 @ [?u])"
    by (simp add: h)
  then show ?thesis
    by (simp add: last12_def l)
qed

section \<open>Properties of the session\<close>

text \<open>
  C9. Every operation keeps the messages that are there, in their order, and only ever
  appends: the two halves of \<^verbatim>\<open>send\<close> (whatever the request comes to), \<^verbatim>\<open>render\<close>,
  \<^verbatim>\<open>updateCounter\<close>, the theme toggle, and so every step and every run of a session; and
  the greeting is the first message of every session state.
\<close>

theorem append_only:
  "(\<exists>ys. messages (st (fst (send_start cfg pg))) = messages (st pg) @ ys)
   \<and> (\<exists>ys. messages (st (fst (send_settle oc pg))) = messages (st pg) @ ys)
   \<and> (\<exists>ys. messages (st (send cfg oc pg)) = messages (st pg) @ ys)
   \<and> messages (st (fst (render pg))) = messages (st pg)
   \<and> messages (st (updateCounter cfg pg)) = messages (st pg)
   \<and> messages (st (toggleTheme pg)) = messages (st pg)
   \<and> (\<exists>ys. messages (st (page_of (step cfg s ev))) = messages (st (page_of s)) @ ys)
   \<and> (\<exists>ys. messages (st (page_of (run cfg doc (evs @ evs'))))
             = messages (st (page_of (run cfg doc evs))) @ ys)
   \<and> (\<exists>ys. messages (st (page_of (run cfg doc evs))) = greeting # ys)"
proof -
  obtain pg' r where a: "send_start cfg pg = (pg', r)"
    by (cases "send_start cfg pg")
  from send_start_cases [OF a] have 1: "\<exists>ys. messages (st pg') = messages (st pg) @ ys"
    by auto
  have 2: "\<exists>ys. messages (st (fst (send_settle oc p))) = messages (st p) @ ys" for p
    by (simp add: send_settle_state)
  have 3: "\<exists>ys. messages (st (send cfg oc pg)) = messages (st pg) @ ys"
  proof (cases r)
    case (Awaiting req)
    with a have "send cfg oc pg = fst (send_settle oc pg')"
      by (simp add: send_def)
    with 1 2 [of pg'] show ?thesis by auto
  qed (use a 1 in \<open>auto simp: send_def\<close>)
  from 1 a have 4: "\<exists>ys. messages (st (fst (send_start cfg pg))) = messages (st pg) @ ys"
    by simp
  from 2 [of pg] 3 4 step_messages [of cfg s ev] run_messages_append [of cfg doc evs evs']
    run_greeting_first [of cfg doc evs]
  show ?thesis
    by (simp add: render_fields updateCounter_fields toggleTheme_fields)
qed

theorem append_only_witness:
  "messages (st (fst (send_settle NetworkError sample_page)))
     = messages (st sample_page) @ [\<lparr>role = Assistant, content = Str error_notice\<rparr>]
   \<and> messages (st (fst (render sample_page))) = [greeting]"
proof -
  have m: "messages (st sample_page) = [greeting]"
    by (simp add: sample_page_def initial_state_def)
  from append_only [of default_config sample_page NetworkError]
  have "messages (st (fst (render sample_page))) = messages (st sample_page)"
    by blast
  then show ?thesis
    by (simp add: m send_settle_state)
qed

lemma step_in_flight:
  assumes "in_flight s \<le> (if loading (st (page_of s)) then 1 else 0)"
  shows "in_flight (step cfg s ev) \<le> (if loading (st (page_of (step cfg s ev))) then 1 else 0)"
proof (cases ev)
  case (Edit v)
  with assms show ?thesis by (simp add: updateCounter_fields)
next
  case Submit
  obtain pg' r where a: "send_start cfg (page_of s) = (pg', r)"
    by (cases "send_start cfg (page_of s)")
  from send_start_cases [OF a] assms a Submit show ?thesis
    by (cases r) (auto split: if_splits)
next
  case (Settle oc)
  with assms show ?thesis by (auto simp: send_settle_state split: if_splits)
next
  case ThemeClick
  with assms show ?thesis by (simp add: toggleTheme_fields)
qed

lemma run_in_flight:
  "in_flight (run cfg doc evs) \<le> (if loading (st (page_of (run cfg doc evs))) then 1 else 0)"
proof (induction evs rule: rev_induct)
  case Nil
  then show ?case by (simp add: run_def startup_state initial_state_def)
next
  case (snoc ev evs)
  from step_in_flight [OF snoc.IH, of cfg ev] show ?case
    by (simp only: run_snoc)
qed

lemma step_typed:
  assumes "in_flight s = (if loading (st (page_of s)) then 1 else 0)"
    and "string_contents (messages (st (page_of s)))"
    and "string_answer ev"
  shows "in_flight (step cfg s ev) = (if loading (st (page_of (step cfg s ev))) then 1 else 0)
       \<and> string_contents (messages (st (page_of (step cfg s ev))))"
proof (cases ev)
  case (Edit v)
  with assms show ?thesis by (simp add: updateCounter_fields)
next
  case Submit
  show ?thesis
  proof (cases "trim (input_value (page_of s)) = [] \<or> loading (st (page_of s))")
    case True
    with assms Submit show ?thesis
      by (simp add: send_start_ignored)
  next
    case False
    with send_start_awaiting [of "page_of s" cfg] assms(2)
    obtain pg' req where a: "send_start cfg (page_of s) = (pg', Awaiting req)"
      by blast
    from send_start_cases [OF a] assms False a Submit show ?thesis
      by (auto simp: string_contents_def)
  qed
next
  case (Settle oc)
  with assms show ?thesis
    by (cases "try_answer oc")
      (auto simp: send_settle_state string_contents_def string_answer_def split: if_splits)
next
  case ThemeClick
  with assms show ?thesis by (simp add: toggleTheme_fields)
qed

lemma run_typed:
  "list_all string_answer evs \<Longrightarrow>
     in_flight (run cfg doc evs) = (if loading (st (page_of (run cfg doc evs))) then 1 else 0)
     \<and> string_contents (messages (st (page_of (run cfg doc evs))))"
proof (induction evs rule: rev_induct)
  case Nil
  then show ?case
    by (simp add: run_def startup_state initial_state_def string_contents_def greeting_def)
next
  case (snoc ev evs)
  then have "in_flight (run cfg doc evs) = (if loading (st (page_of (run cfg doc evs))) then 1 else 0)"
    and "string_contents (messages (st (page_of (run cfg doc evs))))"
    and "string_answer ev"
    by simp_all
  from step_typed [OF this, of cfg] show ?case
    by (simp only: run_snoc)
qed

lemma step_loading_rises:
  assumes "\<not> loading (st (page_of s))" "loading (st (page_of (step cfg s ev)))"
  shows "ev = Submit \<and> trim (input_value (page_of s)) \<noteq> []"
proof (cases ev)
  case (Edit v)
  with assms show ?thesis by (simp add: updateCounter_fields)
next
  case Submit
  obtain pg' r where a: "send_start cfg (page_of s) = (pg', r)"
    by (cases "send_start cfg (page_of s)")
  from send_start_cases [OF a] assms a Submit show ?thesis
    by (cases r) auto
next
  case (Settle oc)
  with assms show ?thesis by (auto simp: send_settle_state split: if_splits)
next
  case ThemeClick
  with assms show ?thesis by (simp add: toggleTheme_fields)
qed

lemma step_loading_falls:
  assumes "loading (st (page_of s))" "\<not> loading (st (page_of (step cfg s ev)))"
  shows "(\<exists>oc. ev = Settle oc) \<and> 0 < in_flight s"
proof (cases ev)
  case (Edit v)
  with assms show ?thesis by (simp add: updateCounter_fields)
next
  case Submit
  with assms show ?thesis by (simp add: send_start_ignored)
next
  case (Settle oc)
  with assms show ?thesis by (auto split: if_splits)
next
  case ThemeClick
  with assms show ?thesis by (simp add: toggleTheme_fields)
qed

text \<open>
  The \<^verbatim>\<open>loading\<close> flag. In every state of a session at most one request is in flight, and \<^verbatim>\<open>loading\<close> is
  true wherever one is. A step takes \<^verbatim>\<open>loading\<close> from false to true only where it is a
  \<^verbatim>\<open>send\<close> with an input that is not empty once trimmed, and from true to false only where
  it is the settling of the request in flight. Where the answers of the successful responses
  are strings, as the interface has them, \<^verbatim>\<open>loading\<close> is true exactly where a request is
  in flight, and a valid \<^verbatim>\<open>send\<close> that finds it false puts one in flight.
\<close>

lemma loading_tracks_request:
  "in_flight (run cfg doc evs) \<le> 1
   \<and> (0 < in_flight (run cfg doc evs) \<longrightarrow> loading (st (page_of (run cfg doc evs))))
   \<and> (\<not> loading (st (page_of (run cfg doc evs)))
        \<and> loading (st (page_of (step cfg (run cfg doc evs) ev)))
        \<longrightarrow> ev = Submit \<and> trim (input_value (page_of (run cfg doc evs))) \<noteq> [])
   \<and> (loading (st (page_of (run cfg doc evs)))
        \<and> \<not> loading (st (page_of (step cfg (run cfg doc evs) ev)))
        \<longrightarrow> (\<exists>oc. ev = Settle oc) \<and> in_flight (run cfg doc evs) = 1
            \<and> in_flight (step cfg (run cfg doc evs) ev) = 0)
   \<and> (list_all string_answer evs \<longrightarrow>
        (loading (st (page_of (run cfg doc evs))) \<longleftrightarrow> in_flight (run cfg doc evs) = 1)
        \<and> (\<not> loading (st (page_of (run cfg doc evs)))
             \<and> trim (input_value (page_of (run cfg doc evs))) \<noteq> []
             \<longrightarrow> loading (st (page_of (step cfg (run cfg doc evs) Submit)))
                 \<and> in_flight (step cfg (run cfg doc evs) Submit) = 1))"
proof -
  let ?s = "run cfg doc evs"
  note i = run_in_flight [of cfg doc evs]
  have 1: "in_flight ?s \<le> 1" and 2: "0 < in_flight ?s \<longrightarrow> loading (st (page_of ?s))"
    using i by (auto split: if_splits)
  have 3: "ev = Submit \<and> trim (input_value (page_of ?s)) \<noteq> []"
    if "\<not> loading (st (page_of ?s))" "loading (st (page_of (step cfg ?s ev)))"
    using that by (rule step_loading_rises)
  have 4: "(\<exists>oc. ev = Settle oc) \<and> in_flight ?s = 1 \<and> in_flight (step cfg ?s ev) = 0"
    if a: "loading (st (page_of ?s))" and b: "\<not> loading (st (page_of (step cfg ?s ev)))"
  proof -
    from step_loading_falls [OF a b] 1 have "(\<exists>oc. ev = Settle oc) \<and> in_flight ?s = 1"
      by auto
    then show ?thesis by auto
  qed
  have 5: "(loading (st (page_of ?s)) \<longleftrightarrow> in_flight ?s = 1)
        \<and> (\<not> loading (st (page_of ?s)) \<and> trim (input_value (page_of ?s)) \<noteq> []
             \<longrightarrow> loading (st (page_of (step cfg ?s Submit))) \<and> in_flight (step cfg ?s Submit) = 1)"
    if t: "list_all string_answer evs"
  proof -
    from run_typed [OF t, of cfg doc]
    have e: "in_flight ?s = (if loading (st (page_of ?s)) then 1 else 0)"
      and c: "string_contents (messages (st (page_of ?s)))"
      by simp_all
    have "loading (st (page_of (step cfg ?s Submit))) \<and> in_flight (step cfg ?s Submit) = 1"
      if n: "\<not> loading (st (page_of ?s))" and v: "trim (input_value (page_of ?s)) \<noteq> []"
    proof -
      from send_start_awaiting [OF v n c, of cfg]
      obtain pg' req where a: "send_start cfg (page_of ?s) = (pg', Awaiting req)"
        by blast
      from send_start_cases [OF a] a e n show ?thesis
        by auto
    qed
    with e show ?thesis by (auto split: if_splits)
  qed
  from 1 2 3 4 5 show ?thesis by blast
qed

lemma loading_tracks_request_sample:
  "loading (st (page_of (run default_config sample_page [Edit hello, Submit])))
   \<and> in_flight (run default_config sample_page [Edit hello, Submit]) = 1
   \<and> \<not> loading (st (page_of (run default_config sample_page [Edit hello, Submit, Settle NetworkError])))
   \<and> in_flight (run default_config sample_page [Edit hello, Submit, Settle NetworkError]) = 0"
proof -
  let ?a = "run default_config sample_page [Edit hello]"
  let ?b = "run default_config sample_page [Edit hello, Submit]"
  let ?c = "run default_config sample_page [Edit hello, Submit, Settle NetworkError]"
  have ab: "?b = step default_config ?a Submit" and bc: "?c = step default_config ?b (Settle NetworkError)"
    by (simp_all add: run_def)
  have ia: "input_value (page_of ?a) = hello"
    by (simp add: run_def updateCounter_def Let_def default_config_def
        hello_def lit_def)
  have t: "trim hello \<noteq> []"
    by (simp add: hello_def trim_def lit_def is_space_def)
  have la: "\<not> loading (st (page_of ?a))"
    by (simp add: run_def updateCounter_fields startup_state initial_state_def)
  have ta: "list_all string_answer [Edit hello]" and tb: "list_all string_answer [Edit hello, Submit]"
    and tc: "list_all string_answer [Edit hello, Submit, Settle NetworkError]"
    by (simp_all add: string_answer_def)
  have va: "trim (input_value (page_of ?a)) \<noteq> []"
    using ia t by simp
  from loading_tracks_request [of default_config sample_page "[Edit hello]" Submit] ta la va
  have "loading (st (page_of (step default_config ?a Submit)))
      \<and> in_flight (step default_config ?a Submit) = 1"
    by blast
  then have 1: "loading (st (page_of ?b)) \<and> in_flight ?b = 1"
    by (simp only: ab)
  have "st (page_of ?c) = st (fst (send_settle NetworkError (page_of ?b)))"
    using 1 by (simp add: bc)
  then have 2: "\<not> loading (st (page_of ?c))"
    by (simp add: send_settle_state)
  from loading_tracks_request [of default_config sample_page "[Edit hello, Submit, Settle NetworkError]" Submit] tc
  have "loading (st (page_of ?c)) \<longleftrightarrow> in_flight ?c = 1" and "in_flight ?c \<le> 1"
    by blast+
  with 2 have 3: "in_flight ?c = 0"
    by simp
  from 1 2 3 show ?thesis by blast
qed

text \<open>
  Why the lemmas above speak of transcripts and answers of strings: the script
  stores a truthy answer of any type, \<^verbatim>\<open>liteMarkdown\<close> throws on one that is no string, and
  the \<^verbatim>\<open>render()\<close> of \<^verbatim>\<open>send\<close> stands before its \<^verbatim>\<open>try\<close>. With such a message in the
  transcript a valid \<^verbatim>\<open>send\<close> sets \<^verbatim>\<open>loading\<close> and ends in the error, with no request.
\<close>

lemma render_messages_throws:
  "m \<in> set ms \<Longrightarrow> liteMarkdown (content m) = Inl TypeError
     \<Longrightarrow> snd (render_messages ms) = Some TypeError"
proof (induction ms)
  case Nil
  then show ?case by simp
next
  case (Cons a ms)
  show ?case
  proof (cases "liteMarkdown (content a)")
    case (Inl e)
    then show ?thesis by (cases e) simp
  next
    case (Inr html)
    with Cons show ?thesis by (auto split: prod.splits)
  qed
qed

lemma send_start_throws:
  assumes "trim (input_value pg) \<noteq> []" "\<not> loading (st pg)"
    and "m \<in> set (messages (st pg))" "liteMarkdown (content m) = Inl TypeError"
  shows "\<exists>pg'. send_start cfg pg = (pg', Threw TypeError) \<and> loading (st pg')
           \<and> requests pg' = requests pg"
proof -
  let ?u = "\<lparr>role = User, content = Str (trim (input_value pg))\<rparr>"
  let ?pg3 = "set_loading True (updateCounter cfg ((push_message ?u pg)\<lparr>input_value := []\<rparr>))"
  have ms: "messages (st ?pg3) = messages (st pg) @ [?u]"
    by (simp add: set_loading_def updateCounter_fields push_message_def)
  with assms(3) have "m \<in> set (messages (st ?pg3))" by simp
  from render_messages_throws [OF this assms(4)]
  obtain ns where "render_messages (messages (st ?pg3)) = (ns, Some TypeError)"
    by (cases "render_messages (messages (st ?pg3))") auto
  then have r: "render ?pg3 = (?pg3\<lparr>view_nodes := ns\<rparr>, Some TypeError)"
    by (simp add: render_def)
  have "loading (st ?pg3)" "requests ?pg3 = requests pg"
    by (simp_all add: set_loading_def updateCounter_fields push_message_def)
  with assms(1,2) r show ?thesis
    by (simp add: send_start_def Let_def)
qed

lemma liteMarkdown_number: "q \<noteq> 0 \<Longrightarrow> liteMarkdown (Num (Fin q)) = Inl TypeError"
  by (simp add: liteMarkdown_def escapeHTML_def js_or_def)

section \<open>An answer that is no string\<close>

text \<open>
  The session of \<open>number_session\<close>: the user sends \<^verbatim>\<open>Hello\<close>, the server answers 200 with
  \<^verbatim>\<open>{"content": 5}\<close>, and the user types \<^verbatim>\<open>Hello\<close> again. \<^verbatim>\<open>data?.content\<close> is 5, which is
  truthy, so 5 is stored as the content of the assistant's message; \<^verbatim>\<open>liteMarkdown(5)\<close>
  evaluates \<^verbatim>\<open>(5).replace\<close>, which is no function. The \<^verbatim>\<open>render()\<close> of \<^verbatim>\<open>finally\<close> throws on
  it with \<^verbatim>\<open>loading\<close> already false; the page is then at rest with three messages, the
  input \<^verbatim>\<open>Hello\<close> and the one request of the first \<^verbatim>\<open>send\<close>.
\<close>

lemma greeting_html:
  "liteMarkdown (content greeting)
     = Inr (lit ''Halo! Saya <strong>CCCC.AI</strong>. Tanyakan apa pun tentang CC Cup XL (cccup.id).'')"
  by code_simp

lemma greeting_role: "role greeting = Assistant"
  by (simp add: greeting_def)

lemma hello_html: "liteMarkdown (Str hello) = Inr hello"
  by code_simp

lemma answer_number: "try_answer (Response 200 (Some number_content)) = Some (Num (Fin 5))"
  by (simp add: resp_ok_def answer_of_def top_content_def number_content_def js_or_def)

lemma number_session_run:
  "\<exists>pg. run default_config sample_page number_session = \<lparr>page_of = pg, in_flight = 0\<rparr>
     \<and> st pg = \<lparr>messages = [greeting, \<lparr>role = User, content = Str hello\<rparr>,
                   \<lparr>role = Assistant, content = Num (Fin 5)\<rparr>],
                 loading = False\<rparr>
     \<and> input_value pg = hello
     \<and> requests pg = [chat_request default_config [greeting, \<lparr>role = User, content = Str hello\<rparr>]]"
proof -
  let ?oc = "Response 200 (Some number_content)"
  let ?p0 = "startup default_config sample_page"
  let ?p1 = "updateCounter default_config (?p0\<lparr>input_value := hello\<rparr>)"
  let ?req = "chat_request default_config [greeting, \<lparr>role = User, content = Str hello\<rparr>]"
  have i: "input_value ?p1 = hello"
    by (simp add: updateCounter_def Let_def default_config_def hello_def lit_def)
  have s1: "st ?p1 = initial_state"
    by (simp add: updateCounter_fields startup_state)
  have r1: "requests ?p1 = []"
    by (simp add: updateCounter_fields startup_requests)
  have t: "trim hello = hello"
    by (simp add: hello_def trim_def lit_def is_space_def)
  have sc: "string_contents (messages (st ?p1))"
    by (simp add: s1 initial_state_def greeting_def string_contents_def)
  have nl: "\<not> loading (st ?p1)" and ne: "trim (input_value ?p1) \<noteq> []"
    by (simp_all add: s1 initial_state_def i t) (simp add: hello_def lit_def)
  from send_start_awaiting [OF ne nl sc, of default_config]
  obtain pg' where a: "send_start default_config ?p1 = (pg', Awaiting ?req)"
    and r2: "requests pg' = [?req]"
    by (auto simp: s1 initial_state_def i t r1)
  from send_start_cases [OF a] ne nl
  have s2: "st pg' = \<lparr>messages = [greeting, \<lparr>role = User, content = Str hello\<rparr>], loading = True\<rparr>"
    by (simp add: s1 initial_state_def i t)
  let ?p3 = "fst (send_settle ?oc pg')"
  let ?p4 = "updateCounter default_config (?p3\<lparr>input_value := hello\<rparr>)"
  have r: "run default_config sample_page number_session = \<lparr>page_of = ?p4, in_flight = 0\<rparr>"
    using a by (simp add: run_def number_session_def)
  have s4: "st ?p4 = \<lparr>messages = [greeting, \<lparr>role = User, content = Str hello\<rparr>,
                   \<lparr>role = Assistant, content = Num (Fin 5)\<rparr>], loading = False\<rparr>"
    by (simp add: updateCounter_fields send_settle_state s2 answer_number del: try_answer.simps)
  have i4: "input_value ?p4 = hello"
    by (simp add: updateCounter_def Let_def default_config_def hello_def lit_def)
  have r4: "requests ?p4 = [?req]"
    by (simp add: updateCounter_fields send_settle_requests r2)
  from r s4 i4 r4 show ?thesis
    by blast
qed

lemma number_page_facts:
  "st number_page = \<lparr>messages = [greeting, \<lparr>role = User, content = Str hello\<rparr>,
                   \<lparr>role = Assistant, content = Num (Fin 5)\<rparr>],
                 loading = False\<rparr>"
  "input_value number_page = hello"
  "requests number_page = [chat_request default_config [greeting, \<lparr>role = User, content = Str hello\<rparr>]]"
  "run default_config sample_page number_session = \<lparr>page_of = number_page, in_flight = 0\<rparr>"
  using number_session_run by (auto simp: number_page_def)

lemma number_page_send:
  "\<exists>pg'. send_start default_config number_page = (pg', Threw TypeError)
     \<and> st pg' = \<lparr>messages = [greeting, \<lparr>role = User, content = Str hello\<rparr>,
                    \<lparr>role = Assistant, content = Num (Fin 5)\<rparr>,
                    \<lparr>role = User, content = Str hello\<rparr>],
                  loading = True\<rparr>
     \<and> requests pg' = requests number_page
     \<and> view_nodes pg'
       = [bubble Assistant (lit ''Halo! Saya <strong>CCCC.AI</strong>. Tanyakan apa pun tentang CC Cup XL (cccup.id).''),
          bubble User hello]"
proof -
  let ?u = "\<lparr>role = User, content = Str hello\<rparr>"
  let ?pg3 = "set_loading True (updateCounter default_config
      ((push_message ?u number_page)\<lparr>input_value := []\<rparr>))"
  have t: "trim hello = hello" and ne: "hello \<noteq> []"
    by (simp_all add: hello_def trim_def lit_def is_space_def)
  have s3: "st ?pg3 = \<lparr>messages = [greeting, ?u, \<lparr>role = Assistant, content = Num (Fin 5)\<rparr>, ?u],
      loading = True\<rparr>"
    by (simp add: set_loading_def updateCounter_fields push_message_def number_page_facts)
  have r3: "requests ?pg3 = requests number_page"
    by (simp add: set_loading_def updateCounter_fields push_message_def)
  have "render_messages (messages (st ?pg3))
      = ([bubble Assistant (lit ''Halo! Saya <strong>CCCC.AI</strong>. Tanyakan apa pun tentang CC Cup XL (cccup.id).''),
          bubble User hello], Some TypeError)"
    by (simp add: s3 greeting_html hello_html liteMarkdown_number greeting_role)
  then have "render ?pg3 = (?pg3\<lparr>view_nodes :=
          [bubble Assistant (lit ''Halo! Saya <strong>CCCC.AI</strong>. Tanyakan apa pun tentang CC Cup XL (cccup.id).''),
           bubble User hello]\<rparr>, Some TypeError)"
    by (simp add: render_def)
  then have "send_start default_config number_page
      = (?pg3\<lparr>view_nodes :=
          [bubble Assistant (lit ''Halo! Saya <strong>CCCC.AI</strong>. Tanyakan apa pun tentang CC Cup XL (cccup.id).''),
           bubble User hello]\<rparr>, Threw TypeError)"
    by (simp add: send_start_def Let_def number_page_facts t ne)
  with s3 r3 show ?thesis
    by simp
qed

lemma step_stuck:
  assumes "loading (st (page_of s))" "in_flight s = 0"
  shows "st (page_of (step cfg s ev)) = st (page_of s) \<and> in_flight (step cfg s ev) = 0
       \<and> requests (page_of (step cfg s ev)) = requests (page_of s)
       \<and> view_nodes (page_of (step cfg s ev)) = view_nodes (page_of s)"
proof (cases ev)
  case (Edit v)
  with assms show ?thesis by (simp add: updateCounter_fields)
next
  case Submit
  with assms show ?thesis by (simp add: send_start_ignored)
next
  case (Settle oc)
  with assms show ?thesis by simp
next
  case ThemeClick
  with assms show ?thesis by (simp add: toggleTheme_fields)
qed

lemma foldl_stuck:
  assumes "loading (st (page_of s))" "in_flight s = 0"
  shows "st (page_of (foldl (step cfg) s evs)) = st (page_of s)
       \<and> in_flight (foldl (step cfg) s evs) = 0
       \<and> requests (page_of (foldl (step cfg) s evs)) = requests (page_of s)
       \<and> view_nodes (page_of (foldl (step cfg) s evs)) = view_nodes (page_of s)"
  using assms
proof (induction evs arbitrary: s)
  case Nil
  then show ?case by simp
next
  case (Cons ev evs)
  from step_stuck [OF Cons.prems, of cfg ev]
  have a: "st (page_of (step cfg s ev)) = st (page_of s)" "in_flight (step cfg s ev) = 0"
    "requests (page_of (step cfg s ev)) = requests (page_of s)"
    "view_nodes (page_of (step cfg s ev)) = view_nodes (page_of s)"
    by simp_all
  with Cons.prems have "loading (st (page_of (step cfg s ev)))" by simp
  from Cons.IH [OF this a(2)] a show ?case
    by simp
qed

text \<open>
  C4, at the page \<open>number_page\<close>. No request is loading and the input is \<^verbatim>\<open>Hello\<close>, so
  that \<^verbatim>\<open>send\<close> should issue exactly one request. It issues none: it appends the user's
  message and sets \<^verbatim>\<open>loading\<close>, and its \<^verbatim>\<open>render()\<close>, which stands before the \<^verbatim>\<open>try\<close>, throws
  the TypeError of \<^verbatim>\<open>liteMarkdown(5)\<close>. The requests of the page stay the one of the first
  \<^verbatim>\<open>send\<close>, whatever a server would have answered.
\<close>

theorem submit_without_request:
  "\<not> loading (st number_page)
   \<and> trim (input_value number_page) = lit ''Hello''
   \<and> snd (send_start default_config number_page) = Threw TypeError
   \<and> requests (fst (send_start default_config number_page)) = requests number_page
   \<and> requests (send default_config oc number_page) = requests number_page
   \<and> length (requests (send default_config oc number_page)) = 1
   \<and> messages (st (send default_config oc number_page))
       = messages (st number_page) @ [\<lparr>role = User, content = Str (lit ''Hello'')\<rparr>]
   \<and> loading (st (send default_config oc number_page))"
proof -
  from number_page_send obtain pg' where
    a: "send_start default_config number_page = (pg', Threw TypeError)"
    and b: "st pg' = \<lparr>messages = [greeting, \<lparr>role = User, content = Str hello\<rparr>,
                    \<lparr>role = Assistant, content = Num (Fin 5)\<rparr>,
                    \<lparr>role = User, content = Str hello\<rparr>],
                  loading = True\<rparr>"
    and c: "requests pg' = requests number_page"
    by blast
  from a have d: "send default_config oc number_page = pg'"
    by (simp add: send_def)
  have t: "trim hello = lit ''Hello''"
    by (simp add: hello_def trim_def lit_def is_space_def)
  show ?thesis
    unfolding d using a b c t by (simp add: number_page_facts hello_def)
qed

theorem submit_without_request_witness:
  "snd (send_start default_config number_page) = Threw TypeError
   \<and> requests (send default_config NetworkError number_page) = requests number_page
   \<and> length (requests (send default_config (Response 200 (Some hi_there)) number_page)) = 1"
  using submit_without_request [of NetworkError]
    submit_without_request [of "Response 200 (Some hi_there)"]
  by blast

text \<open>
  C1, in the session \<open>number_session\<close> followed by a \<^verbatim>\<open>send\<close>. The text submitted is valid
  and the transcript has four messages, so that a request with the last three of them as
  its body should go out and the page should show four bubbles. No request goes out: the
  only request of the session is that of the first \<^verbatim>\<open>send\<close>, with the one message it had
  to carry. The page shows the bubbles of the first two messages only: \<^verbatim>\<open>render\<close> has
  emptied the list and appended bubbles up to the message it throws on.
\<close>

theorem valid_submit_without_body:
  "trim (input_value (page_of (run default_config sample_page number_session))) = lit ''Hello''
   \<and> messages (st (page_of (run default_config sample_page (number_session @ [Submit]))))
       = [greeting, \<lparr>role = User, content = Str (lit ''Hello'')\<rparr>,
          \<lparr>role = Assistant, content = Num (Fin 5)\<rparr>,
          \<lparr>role = User, content = Str (lit ''Hello'')\<rparr>]
   \<and> map body_messages (requests (page_of (run default_config sample_page (number_session @ [Submit]))))
       = [[\<lparr>role = User, content = Str (lit ''Hello'')\<rparr>]]
   \<and> view_nodes (page_of (run default_config sample_page (number_session @ [Submit])))
       = [bubble Assistant (lit ''Halo! Saya <strong>CCCC.AI</strong>. Tanyakan apa pun tentang CC Cup XL (cccup.id).''),
          bubble User (lit ''Hello'')]"
proof -
  from number_page_send obtain pg' where
    a: "send_start default_config number_page = (pg', Threw TypeError)"
    and b: "st pg' = \<lparr>messages = [greeting, \<lparr>role = User, content = Str hello\<rparr>,
                    \<lparr>role = Assistant, content = Num (Fin 5)\<rparr>,
                    \<lparr>role = User, content = Str hello\<rparr>],
                  loading = True\<rparr>"
    and c: "requests pg' = requests number_page"
    and d: "view_nodes pg'
       = [bubble Assistant (lit ''Halo! Saya <strong>CCCC.AI</strong>. Tanyakan apa pun tentang CC Cup XL (cccup.id).''),
          bubble User hello]"
    by blast
  have r: "run default_config sample_page (number_session @ [Submit])
      = \<lparr>page_of = pg', in_flight = 0\<rparr>"
    using a by (simp add: run_append number_page_facts(4))
  have t: "trim hello = lit ''Hello''"
    by (simp add: hello_def trim_def lit_def is_space_def)
  have h: "body_messages (chat_request default_config [greeting, \<lparr>role = User, content = Str hello\<rparr>])
      = [\<lparr>role = User, content = Str hello\<rparr>]"
    by (simp add: chat_request_def history_def last12_def)
  show ?thesis
    unfolding r using b c d t h
    by (simp add: number_page_facts hello_def)
qed

text \<open>
  C8, in the session \<open>number_session\<close> followed by a \<^verbatim>\<open>send\<close> and by any events at all.
  Before the \<^verbatim>\<open>send\<close> nothing is loading and no request is in flight. The \<^verbatim>\<open>send\<close> sets
  \<^verbatim>\<open>loading\<close> and throws before its \<^verbatim>\<open>try\<close>, so that no request goes out and the
  \<^verbatim>\<open>finally\<close> that would reset \<^verbatim>\<open>loading\<close> is never reached. From then on \<^verbatim>\<open>loading\<close> is
  true with no request in flight, and stays so: every later \<^verbatim>\<open>send\<close> is ignored, and
  nothing can settle.
\<close>

theorem loading_without_request:
  "\<not> loading (st (page_of (run default_config sample_page number_session)))
   \<and> in_flight (run default_config sample_page number_session) = 0
   \<and> loading (st (page_of (run default_config sample_page (number_session @ Submit # evs))))
   \<and> in_flight (run default_config sample_page (number_session @ Submit # evs)) = 0
   \<and> length (requests (page_of (run default_config sample_page (number_session @ Submit # evs)))) = 1"
proof -
  from number_page_send obtain pg' where
    a: "send_start default_config number_page = (pg', Threw TypeError)"
    and b: "loading (st pg')"
    and c: "requests pg' = requests number_page"
    by auto
  let ?s = "\<lparr>page_of = pg', in_flight = 0\<rparr>"
  have r: "run default_config sample_page (number_session @ Submit # evs)
      = foldl (step default_config) ?s evs"
    using a by (simp add: run_append number_page_facts(4))
  have "loading (st (page_of ?s))" "in_flight ?s = 0"
    using b by simp_all
  from foldl_stuck [OF this, of default_config evs] b c
  have "loading (st (page_of (foldl (step default_config) ?s evs)))
      \<and> in_flight (foldl (step default_config) ?s evs) = 0
      \<and> length (requests (page_of (foldl (step default_config) ?s evs))) = 1"
    by (simp add: number_page_facts)
  then show ?thesis
    unfolding r by (simp add: number_page_facts)
qed

theorem loading_without_request_witness:
  "loading (st (page_of (run default_config sample_page
      (number_session @ [Submit, Settle NetworkError, Edit hello, Submit, ThemeClick]))))
   \<and> in_flight (run default_config sample_page
      (number_session @ [Submit, Settle NetworkError, Edit hello, Submit, ThemeClick])) = 0"
  using loading_without_request [of "[Settle NetworkError, Edit hello, Submit, ThemeClick]"]
  by blast

section \<open>Bullet lines\<close>

declare bold.simps [simp del] bullets_from.simps [simp del]

lemma is_LT_space: "is_LT c \<Longrightarrow> is_space c"
  by (auto simp: is_LT_def is_space_def)

lemma bold_close_shape:
  "bold_close acc t = Some (g, r) \<Longrightarrow>
     \<exists>body. g = acc @ body \<and> t = body @ [0x2A, 0x2A] @ r \<and> (\<forall>c \<in> set body. \<not> is_LT c)"
proof (induction t arbitrary: acc)
  case Nil
  then show ?case by simp
next
  case (Cons c t)
  show ?case
  proof (cases "c = 0x2A \<and> (case t of d # _ \<Rightarrow> d = 0x2A | [] \<Rightarrow> False)")
    case True
    with Cons.prems have "g = acc" "r = tl t" by simp_all
    with True show ?thesis by (cases t) auto
  next
    case False
    with Cons.prems have n: "\<not> is_LT c" and "bold_close (acc @ [c]) t = Some (g, r)"
      by (auto split: if_splits)
    from Cons.IH [OF this(2)] obtain body where
      "g = (acc @ [c]) @ body" "t = body @ [0x2A, 0x2A] @ r" "\<forall>c \<in> set body. \<not> is_LT c"
      by blast
    with n have "g = acc @ (c # body) \<and> c # t = (c # body) @ [0x2A, 0x2A] @ r
        \<and> (\<forall>x \<in> set (c # body). \<not> is_LT x)"
      by simp
    then show ?thesis by blast
  qed
qed

lemma bold_match_shape:
  assumes "bold_match s = Some (g, r)"
  shows "s = [0x2A, 0x2A] @ g @ [0x2A, 0x2A] @ r \<and> g \<noteq> [] \<and> (\<forall>c \<in> set g. \<not> is_LT c)"
proof (cases s rule: bold_match.cases)
  case (1 a b c t)
  with assms have h: "a = 0x2A" "b = 0x2A" "\<not> is_LT c" "bold_close [c] t = Some (g, r)"
    by (auto split: if_splits)
  from bold_close_shape [OF h(4)] obtain body where
    "g = [c] @ body" "t = body @ [0x2A, 0x2A] @ r" "\<forall>x \<in> set body. \<not> is_LT x"
    by blast
  with 1 h show ?thesis by simp
qed (use assms in auto)

lemma bold_close_line:
  "bold_close acc (t @ 0x0A # rest)
     = map_option (\<lambda>(g, r). (g, r @ 0x0A # rest)) (bold_close acc t)"
proof (induction t arbitrary: acc)
  case Nil
  then show ?case by (simp add: is_LT_def)
next
  case (Cons c t)
  then show ?case
    by (cases t) (auto simp: is_LT_def)
qed

lemma bold_match_line:
  "bold_match (l @ 0x0A # rest) = map_option (\<lambda>(g, r). (g, r @ 0x0A # rest)) (bold_match l)"
proof -
  consider "l = []" | a where "l = [a]" | a b where "l = [a, b]"
    | a b c t where "l = a # b # c # t"
    by (cases l rule: bold_match.cases) auto
  then show ?thesis
  proof cases
    case 1
    then show ?thesis by (cases rest rule: bold_match.cases) (auto simp: is_LT_def)
  next
    case (2 a)
    then show ?thesis by (cases rest) (auto simp: is_LT_def)
  next
    case (3 a b)
    then show ?thesis by (auto simp: is_LT_def)
  next
    case (4 a b c t)
    then show ?thesis by (simp add: bold_close_line)
  qed
qed

lemma bold_line: "bold (l @ 0x0A # rest) = bold l @ 0x0A # bold rest"
proof (induction l rule: bold.induct)
  case 1
  have "bold_match (0x0A # rest) = None"
    using bold_match_line [of "[]" rest] by simp
  then show ?case by (simp add: bold.simps)
next
  case (2 c t)
  show ?case
  proof (cases "bold_match (c # t)")
    case None
    then have m: "bold_match (c # (t @ 0x0A # rest)) = None"
      using bold_match_line [of "c # t" rest] by simp
    have "bold (t @ 0x0A # rest) = bold t @ 0x0A # bold rest"
      using 2(1) [OF None] .
    then show ?thesis
      by (simp add: m None bold.simps(2) [of c t] bold.simps(2) [of c "t @ 0x0A # rest"])
  next
    case (Some x)
    obtain g r where x: "x = (g, r)" by (cases x)
    have m: "bold_match (c # (t @ 0x0A # rest)) = Some (g, r @ 0x0A # rest)"
      using bold_match_line [of "c # t" rest] Some x by simp
    have "bold (r @ 0x0A # rest) = bold r @ 0x0A # bold rest"
      using 2(2) [OF Some x [symmetric]] .
    then show ?thesis
      by (simp add: m Some x bold.simps(2) [of c t] bold.simps(2) [of c "t @ 0x0A # rest"])
  qed
qed

lemma join_with_Cons:
  "join_with sep (l # ls) = (if ls = [] then l else l @ sep @ join_with sep ls)"
  by (cases ls) simp_all

lemma bold_join: "bold (join_with [0x0A] ls) = join_with [0x0A] (map bold ls)"
  by (induction ls) (simp_all add: join_with_Cons bold_line bold.simps(1))

lemma escape_text_append: "escape_text (a @ b) = escape_text a @ escape_text b"
  by (simp add: escape_text_def)

lemma escape_text_Cons: "escape_text (c # t) = escape_unit c @ escape_text t"
  by (simp add: escape_text_def)

lemma escape_text_join:
  "escape_text (join_with [0x0A] ls) = join_with [0x0A] (map escape_text ls)"
  by (induction ls) (simp_all add: join_with_Cons escape_text_append, simp_all add: escape_text_def escape_unit_def)

lemma escape_unit_space: "is_space c \<Longrightarrow> escape_unit c = [c]"
  by (auto simp: escape_unit_def is_space_def)

lemma escape_unit_marker: "is_marker c \<Longrightarrow> escape_unit c = [c]"
  by (auto simp: escape_unit_def is_marker_def)

lemma escape_unit_head:
  "\<exists>d t. escape_unit c = d # t \<and> (is_space d \<longleftrightarrow> is_space c) \<and> (is_marker d \<longleftrightarrow> is_marker c)
     \<and> 0x0A \<notin> set t \<and> (d = 0x0A \<longleftrightarrow> c = 0x0A)"
  by (auto simp: escape_unit_def lit_def is_space_def is_marker_def)

lemma escape_text_no_lf: "0x0A \<notin> set x \<Longrightarrow> 0x0A \<notin> set (escape_text x)"
proof (induction x)
  case Nil
  then show ?case by (simp add: escape_text_def)
next
  case (Cons c x)
  obtain d t where "escape_unit c = d # t" "0x0A \<notin> set t" "d = 0x0A \<longleftrightarrow> c = 0x0A"
    using escape_unit_head [of c] by blast
  with Cons show ?case by (auto simp: escape_text_Cons)
qed

lemma escape_text_spaces: "\<forall>c \<in> set ws. is_space c \<Longrightarrow> escape_text ws = ws"
  by (induction ws) (simp_all add: escape_text_Cons escape_unit_space, simp add: escape_text_def)

lemma bold_not_star: "c \<noteq> 0x2A \<Longrightarrow> bold (c # x) = c # bold x"
proof -
  assume "c \<noteq> 0x2A"
  then have "bold_match (c # x) = None"
    by (cases "c # x" rule: bold_match.cases) simp_all
  then show ?thesis by (simp add: bold.simps(2) [of c x])
qed

lemma bold_second_not_star: "b \<noteq> 0x2A \<Longrightarrow> bold (a # b # x) = a # bold (b # x)"
proof -
  assume "b \<noteq> 0x2A"
  then have "bold_match (a # b # x) = None"
    by (cases x) simp_all
  then show ?thesis by (simp add: bold.simps(2) [of a "b # x"])
qed

lemma bold_spaces: "\<forall>c \<in> set ws. is_space c \<Longrightarrow> bold (ws @ x) = ws @ bold x"
proof (induction ws)
  case Nil
  then show ?case by simp
next
  case (Cons c ws)
  then have "c \<noteq> 0x2A" by (auto simp: is_space_def)
  with Cons show ?case by (simp add: bold_not_star)
qed

lemma bold_set: "set (bold x) \<subseteq> set x \<union> set (lit ''<strong>'') \<union> set (lit ''</strong>'')"
proof (induction x rule: bold.induct)
  case 1
  then show ?case by (simp add: bold.simps(1))
next
  case (2 c t)
  show ?case
  proof (cases "bold_match (c # t)")
    case None
    have "bold (c # t) = c # bold t"
      using None by (simp add: bold.simps(2) [of c t])
    with 2(1) [OF None] show ?thesis by auto
  next
    case (Some x)
    obtain g r where x: "x = (g, r)" by (cases x)
    from bold_match_shape [of "c # t" g r] Some x
    have s: "c # t = [0x2A, 0x2A] @ g @ [0x2A, 0x2A] @ r" by simp
    have sg: "set g \<subseteq> set (c # t)" and sr: "set r \<subseteq> set (c # t)"
      unfolding s by auto
    have ih: "set (bold r) \<subseteq> set r \<union> set (lit ''<strong>'') \<union> set (lit ''</strong>'')"
      using 2(2) [OF Some x [symmetric]] .
    have b: "bold (c # t) = lit ''<strong>'' @ g @ lit ''</strong>'' @ bold r"
      using Some x by (simp add: bold.simps(2) [of c t])
    show ?thesis
      unfolding b using sg sr ih by auto
  qed
qed

lemma bold_no_lf: "0x0A \<notin> set x \<Longrightarrow> 0x0A \<notin> set (bold x)"
proof -
  assume a: "0x0A \<notin> set x"
  have b: "0x0A \<notin> set (lit ''<strong>'')" "0x0A \<notin> set (lit ''</strong>'')"
    by (simp_all add: lit_def)
  show "0x0A \<notin> set (bold x)"
  proof
    assume "0x0A \<in> set (bold x)"
    with bold_set [of x] have "0x0A \<in> set x \<union> set (lit ''<strong>'') \<union> set (lit ''</strong>'')"
      by (rule_tac subsetD)
    with a b show False by simp
  qed
qed

lemma bold_head:
  "\<exists>d u. bold (c # t) = d # u \<and> (d = c \<or> d = 0x3C)"
proof (cases "bold_match (c # t)")
  case None
  then show ?thesis by (simp add: bold.simps(2) [of c t])
next
  case (Some x)
  then show ?thesis by (cases x) (simp add: lit_def bold.simps(2) [of c t])
qed

lemma bullets_from_Nil: "bullets_from b [] = []"
  by (simp add: bullets_from.simps [of b "[]"] bullet_match_def)

lemma bullets_from_skip:
  "bullet_match b (c # t) = None \<Longrightarrow> bullets_from b (c # t) = c # bullets_from False t"
  by (simp add: bullets_from.simps [of b "c # t"])

lemma bullets_from_hit:
  "bullet_match b s = Some (p1, p2, rest) \<Longrightarrow>
     bullets_from b s = p1 @ [0x2022, 0x20] @ p2 @ bullets_from False rest"
  by (simp add: bullets_from.simps [of b s])

lemma bullet_match_inside: "c \<noteq> 0x0A \<Longrightarrow> bullet_match False (c # t) = None"
  by (simp add: bullet_match_def)

lemma bullets_from_plain_tail:
  "0x0A \<notin> set x \<Longrightarrow> bullets_from False (x @ tail) = x @ bullets_from False tail"
  by (induction x) (simp_all add: bullets_from_skip bullet_match_inside)

lemma item_match_not_marker: "\<not> is_marker c \<Longrightarrow> item_match (c # t) = None"
  by (cases t) (simp_all add: is_marker_def)

lemma item_match_lf: "item_match (0x0A # t) = None"
  by (rule item_match_not_marker) (simp add: is_marker_def)

lemma bullets_from_start_lf:
  "tail = [] \<or> (\<exists>t. tail = 0x0A # t) \<Longrightarrow> bullets_from True tail = bullets_from False tail"
proof (cases tail)
  case Nil
  then show ?thesis by (simp add: bullets_from_Nil)
next
  case (Cons c t)
  assume "tail = [] \<or> (\<exists>t. tail = 0x0A # t)"
  with Cons have c: "c = 0x0A" by simp
  have "bullet_match True (0x0A # t) = bullet_match False (0x0A # t)"
    by (simp add: bullet_match_def item_match_lf)
  then show ?thesis
    by (simp add: Cons c bullets_from.simps [of True "0x0A # t"] bullets_from.simps [of False "0x0A # t"])
qed

lemma dot_plus_solid:
  assumes "s = c # r" "\<not> is_space c"
  shows "dot_plus s = Some (takeWhile (\<lambda>x. \<not> is_LT x) s, dropWhile (\<lambda>x. \<not> is_LT x) s)"
  using assms is_LT_space [of c] by (auto simp: dot_plus_def)

lemma ws_plus_spaces:
  assumes "\<forall>x \<in> set sp. is_space x" "\<not> is_space c"
  shows "ws_plus (sp @ c # r) = dot_plus (c # r)"
  using assms
proof (induction sp)
  case Nil
  then show ?case by simp
next
  case (Cons a sp)
  then have "ws_plus (sp @ c # r) = dot_plus (c # r)" by simp
  with Cons.prems dot_plus_solid [of "c # r" c r] show ?case by simp
qed

text \<open>The rest of an item line, up to the end of the line, and what follows the line.\<close>

lemma line_split:
  assumes "0x0A \<notin> set r" "tail = [] \<or> (\<exists>t. tail = 0x0A # t)"
  shows "\<exists>r1 r2. r = r1 @ r2 \<and> takeWhile (\<lambda>x. \<not> is_LT x) (r @ tail) = r1
           \<and> dropWhile (\<lambda>x. \<not> is_LT x) (r @ tail) = r2 @ tail \<and> 0x0A \<notin> set r2"
proof (cases "\<forall>x \<in> set r. \<not> is_LT x")
  case True
  have t: "takeWhile (\<lambda>x. \<not> is_LT x) tail = []" "dropWhile (\<lambda>x. \<not> is_LT x) tail = tail"
    using assms(2) by (auto simp: is_LT_def)
  from True have "takeWhile (\<lambda>x. \<not> is_LT x) (r @ tail) = r"
    "dropWhile (\<lambda>x. \<not> is_LT x) (r @ tail) = tail"
    by (simp_all add: takeWhile_append2 dropWhile_append2 t)
  then show ?thesis by simp
next
  case False
  then obtain x where x: "x \<in> set r" "is_LT x" by blast
  then have "takeWhile (\<lambda>x. \<not> is_LT x) (r @ tail) = takeWhile (\<lambda>x. \<not> is_LT x) r"
    "dropWhile (\<lambda>x. \<not> is_LT x) (r @ tail) = dropWhile (\<lambda>x. \<not> is_LT x) r @ tail"
    by (simp_all add: takeWhile_append1 dropWhile_append1)
  moreover have "0x0A \<notin> set (dropWhile (\<lambda>x. \<not> is_LT x) r)"
    using assms(1) set_dropWhileD by fastforce
  ultimately show ?thesis
    by (metis takeWhile_dropWhile_id)
qed

lemma item_rest_shape:
  assumes "item_rest l = Some r"
  shows "\<exists>m w sp c u. l = m # w # sp @ c # u \<and> r = c # u \<and> is_marker m \<and> is_space w
           \<and> (\<forall>x \<in> set sp. is_space x) \<and> \<not> is_space c"
proof -
  from assms obtain m w t where l: "l = m # w # t" and h: "is_marker m" "is_space w"
    "dropWhile is_space t \<noteq> []" "r = dropWhile is_space t"
    by (auto simp: item_rest_def split: list.splits if_splits)
  from h(3) obtain c u where d: "dropWhile is_space t = c # u"
    by (cases "dropWhile is_space t") auto
  then have nc: "\<not> is_space c"
    using hd_dropWhile [of is_space t] by (metis list.sel(1) list.distinct(1))
  have "t = takeWhile is_space t @ c # u"
    using takeWhile_dropWhile_id [of is_space t] d by simp
  moreover have "\<forall>x \<in> set (takeWhile is_space t). is_space x"
    by (meson set_takeWhileD)
  ultimately show ?thesis
    using l h d nc by blast
qed

lemma item_match_line:
  assumes "item_rest l = Some r" "0x0A \<notin> set l" "tail = [] \<or> (\<exists>t. tail = 0x0A # t)"
  shows "\<exists>r1 r2. r = r1 @ r2 \<and> item_match (l @ tail) = Some (r1, r2 @ tail) \<and> 0x0A \<notin> set r2"
proof -
  from item_rest_shape [OF assms(1)] obtain m w sp c u where
    l: "l = m # w # sp @ c # u" and r: "r = c # u" and h: "is_marker m" "is_space w"
    "\<forall>x \<in> set sp. is_space x" "\<not> is_space c"
    by blast
  from assms(2) l r have "0x0A \<notin> set r" by simp
  from line_split [OF this assms(3)] obtain r1 r2 where
    s: "r = r1 @ r2" "takeWhile (\<lambda>x. \<not> is_LT x) (r @ tail) = r1"
    "dropWhile (\<lambda>x. \<not> is_LT x) (r @ tail) = r2 @ tail" "0x0A \<notin> set r2"
    by blast
  have e: "r @ tail = c # (u @ tail)"
    by (simp add: r)
  have "item_match (l @ tail) = ws_plus (sp @ c # (u @ tail))"
    using h by (simp add: l is_marker_def)
  also have "\<dots> = dot_plus (c # (u @ tail))"
    using h by (rule_tac ws_plus_spaces)
  also have "\<dots> = dot_plus (r @ tail)"
    by (simp only: e)
  also have "\<dots> = Some (r1, r2 @ tail)"
    using dot_plus_solid [OF e h(4)] by (simp only: s(2) s(3))
  finally show ?thesis
    using s by blast
qed

lemma item_match_plain:
  assumes "plain_line l" "0x0A \<notin> set l" "tail = [] \<or> (\<exists>t. tail = 0x0A # t)"
  shows "item_match (l @ tail) = None"
proof (cases l)
  case Nil
  with assms(3) show ?thesis by (auto simp: item_match_lf)
next
  case (Cons m t)
  show ?thesis
  proof (cases "is_marker m")
    case False
    then show ?thesis by (simp add: Cons item_match_not_marker)
  next
    case True
    with assms(1) Cons obtain c u where "t = c # u" "\<not> is_space c"
      by (auto simp: plain_line_def split: list.splits)
    then show ?thesis by (simp add: Cons)
  qed
qed

lemma plain_not_item: "plain_line l \<Longrightarrow> item_rest l = None"
  by (auto simp: plain_line_def item_rest_def split: list.splits)

lemma bullets_from_line:
  assumes "0x0A \<notin> set l" "item_rest l \<noteq> None \<or> plain_line l"
    "tail = [] \<or> (\<exists>t. tail = 0x0A # t)"
  shows "bullets_from True (l @ tail) = bullet_line l @ bullets_from False tail"
    and "bullets_from False (0x0A # l @ tail) = 0x0A # bullet_line l @ bullets_from False tail"
proof -
  show "bullets_from True (l @ tail) = bullet_line l @ bullets_from False tail"
  proof (cases "item_rest l")
    case (Some r)
    from item_match_line [OF Some assms(1) assms(3)] obtain r1 r2 where
      s: "r = r1 @ r2" "item_match (l @ tail) = Some (r1, r2 @ tail)" "0x0A \<notin> set r2"
      by blast
    then have "bullet_match True (l @ tail) = Some ([], r1, r2 @ tail)"
      by (simp add: bullet_match_def)
    from bullets_from_hit [OF this] s(1) s(3) Some show ?thesis
      by (simp add: bullets_from_plain_tail bullet_line_def)
  next
    case None
    with assms(2) have p: "plain_line l" by simp
    show ?thesis
    proof (cases l)
      case Nil
      with assms(3) None show ?thesis
        by (simp add: bullets_from_start_lf bullet_line_def)
    next
      case (Cons c t)
      with assms(1) have c: "c \<noteq> 0x0A" "0x0A \<notin> set t" by auto
      have "item_match (c # (t @ tail)) = None"
        using item_match_plain [OF p assms(1) assms(3)] Cons by simp
      with c have "bullet_match True (c # (t @ tail)) = None"
        by (simp add: bullet_match_def)
      from bullets_from_skip [OF this] c(2) None Cons show ?thesis
        by (simp add: bullets_from_plain_tail bullet_line_def)
    qed
  qed
  show "bullets_from False (0x0A # l @ tail) = 0x0A # bullet_line l @ bullets_from False tail"
  proof (cases "item_rest l")
    case (Some r)
    from item_match_line [OF Some assms(1) assms(3)] obtain r1 r2 where
      s: "r = r1 @ r2" "item_match (l @ tail) = Some (r1, r2 @ tail)" "0x0A \<notin> set r2"
      by blast
    then have "bullet_match False (0x0A # l @ tail) = Some ([0x0A], r1, r2 @ tail)"
      by (simp add: bullet_match_def)
    from bullets_from_hit [OF this] s(1) s(3) Some show ?thesis
      by (simp add: bullets_from_plain_tail bullet_line_def)
  next
    case None
    with assms(2) have p: "plain_line l" by simp
    have "item_match (l @ tail) = None"
      using item_match_plain [OF p assms(1) assms(3)] .
    then have "bullet_match False (0x0A # l @ tail) = None"
      by (simp add: bullet_match_def)
    from bullets_from_skip [OF this] assms(1) None show ?thesis
      by (simp add: bullets_from_plain_tail bullet_line_def)
  qed
qed

lemma join_with_concat:
  "join_with [0x0A] (l # ls) = l @ concat (map (\<lambda>k. 0x0A # k) ls)"
  by (induction ls arbitrary: l) (simp_all add: join_with_Cons)

lemma bullets_from_following:
  assumes "\<forall>l \<in> set ls. 0x0A \<notin> set l \<and> (item_rest l \<noteq> None \<or> plain_line l)"
  shows "bullets_from False (concat (map (\<lambda>k. 0x0A # k) ls))
           = concat (map (\<lambda>k. 0x0A # bullet_line k) ls)"
  using assms
proof (induction ls)
  case Nil
  then show ?case by (simp add: bullets_from_Nil)
next
  case (Cons l ls)
  let ?tail = "concat (map (\<lambda>k. 0x0A # k) ls)"
  have t: "?tail = [] \<or> (\<exists>t. ?tail = 0x0A # t)"
    by (cases ls) simp_all
  from Cons.prems have g: "0x0A \<notin> set l" "item_rest l \<noteq> None \<or> plain_line l"
    by simp_all
  from bullets_from_line(2) [OF g t] Cons show ?case
    by simp
qed

lemma bullets_join:
  assumes "\<forall>l \<in> set ls. 0x0A \<notin> set l \<and> (item_rest l \<noteq> None \<or> plain_line l)"
  shows "bullets (join_with [0x0A] ls) = join_with [0x0A] (map bullet_line ls)"
proof (cases ls)
  case Nil
  then show ?thesis by (simp add: bullets_def bullets_from_Nil)
next
  case (Cons l ks)
  let ?tail = "concat (map (\<lambda>k. 0x0A # k) ks)"
  have t: "?tail = [] \<or> (\<exists>t. ?tail = 0x0A # t)"
    by (cases ks) simp_all
  from assms Cons have g: "0x0A \<notin> set l" "item_rest l \<noteq> None \<or> plain_line l"
    and r: "\<forall>k \<in> set ks. 0x0A \<notin> set k \<and> (item_rest k \<noteq> None \<or> plain_line k)"
    by simp_all
  have "join_with [0x0A] (map bullet_line (l # ks))
      = bullet_line l @ concat (map (\<lambda>k. 0x0A # k) (map bullet_line ks))"
    by (simp only: list.map join_with_concat)
  also have "\<dots> = bullet_line l @ concat (map (\<lambda>k. 0x0A # bullet_line k) ks)"
    by (simp add: comp_def)
  finally show ?thesis
    using bullets_from_line(1) [OF g t] bullets_from_following [OF r]
    by (simp add: Cons bullets_def join_with_concat)
qed

lemma breaks_append: "breaks (a @ b) = breaks a @ breaks b"
  by (simp add: breaks_def)

lemma breaks_no_lf: "0x0A \<notin> set x \<Longrightarrow> breaks x = x"
  by (induction x) (auto simp: breaks_def)

lemma breaks_join:
  assumes "\<forall>l \<in> set ls. 0x0A \<notin> set l"
  shows "breaks (join_with [0x0A] ls) = join_with (lit ''<br>'') ls"
  using assms
proof (induction ls)
  case Nil
  then show ?case by (simp add: breaks_def)
next
  case (Cons l ls)
  have "breaks (0x0A # x) = lit ''<br>'' @ breaks x" for x
    by (simp add: breaks_def)
  with Cons show ?case
    by (simp add: join_with_Cons breaks_append breaks_no_lf)
qed

lemma escape_bold_head:
  assumes "\<not> is_space c"
  shows "\<exists>d u. bold (escape_text (c # t)) = d # u \<and> \<not> is_space d"
proof -
  obtain e v where e: "escape_unit c = e # v" "is_space e \<longleftrightarrow> is_space c"
    using escape_unit_head [of c] by blast
  then have "escape_text (c # t) = e # (v @ escape_text t)"
    by (simp add: escape_text_Cons)
  moreover obtain d u where "bold (e # (v @ escape_text t)) = d # u" "d = e \<or> d = 0x3C"
    using bold_head [of e "v @ escape_text t"] by blast
  moreover have "\<not> is_space 0x3C"
    by (simp add: is_space_def)
  ultimately show ?thesis
    using assms e(2) by auto
qed

lemma item_line_formatted:
  assumes "item_rest l = Some r"
  shows "item_rest (bold (escape_text l)) = Some (bold (escape_text r))"
proof -
  from item_rest_shape [OF assms] obtain m w sp c u where
    l: "l = m # w # sp @ c # u" and r: "r = c # u" and h: "is_marker m" "is_space w"
    "\<forall>x \<in> set sp. is_space x" "\<not> is_space c"
    by blast
  have w: "w \<noteq> 0x2A"
    using h(2) by (auto simp: is_space_def)
  have ws: "\<forall>x \<in> set (w # sp). is_space x"
    using h by simp
  have "escape_text l = m # (w # sp) @ escape_text r"
    using h ws by (simp add: l r escape_text_Cons escape_text_append escape_unit_marker
        escape_unit_space escape_text_spaces)
  then have "bold (escape_text l) = m # bold ((w # sp) @ escape_text r)"
    using bold_second_not_star [OF w, of m "sp @ escape_text r"] by simp
  also have "\<dots> = m # (w # sp) @ bold (escape_text r)"
    using bold_spaces [OF ws] by simp
  finally have b: "bold (escape_text l) = m # w # sp @ bold (escape_text r)"
    by simp
  obtain d v where d: "bold (escape_text r) = d # v" "\<not> is_space d"
    using escape_bold_head [OF h(4), of u] r by blast
  have "dropWhile is_space (sp @ d # v) = d # v"
    using h(3) d(2) by (simp add: dropWhile_append2)
  then show ?thesis
    using h d by (simp add: b item_rest_def)
qed

lemma plain_line_formatted:
  assumes "plain_line l"
  shows "plain_line (bold (escape_text l))"
proof (cases l)
  case Nil
  then show ?thesis by (simp add: escape_text_def bold.simps(1) plain_line_def)
next
  case (Cons m t)
  obtain e v where e: "escape_unit m = e # v" "is_marker e \<longleftrightarrow> is_marker m"
    using escape_unit_head [of m] by blast
  then have x: "escape_text l = e # (v @ escape_text t)"
    by (simp add: Cons escape_text_Cons)
  obtain d u where d: "bold (e # (v @ escape_text t)) = d # u" "d = e \<or> d = 0x3C"
    using bold_head [of e "v @ escape_text t"] by blast
  have lt: "\<not> is_marker 0x3C"
    by (simp add: is_marker_def)
  show ?thesis
  proof (cases "is_marker m")
    case False
    with d e lt have "\<not> is_marker d" by auto
    with d show ?thesis by (simp add: x plain_line_def)
  next
    case True
    with assms Cons obtain c t' where t: "t = c # t'" "\<not> is_space c"
      by (auto simp: plain_line_def split: list.splits)
    from True have em: "escape_unit m = [m]"
      by (rule escape_unit_marker)
    then have x': "escape_text l = m # escape_text (c # t')"
      by (simp add: Cons t escape_text_Cons)
    obtain d' u' where d': "bold (escape_text (c # t')) = d' # u'" "\<not> is_space d'"
      using escape_bold_head [OF t(2), of t'] by blast
    obtain f k where f: "escape_text (c # t') = f # k"
      using escape_unit_head [of c] by (auto simp: escape_text_Cons)
    show ?thesis
    proof (cases "bold_match (m # f # k)")
      case None
      then have "bold (m # f # k) = m # bold (f # k)"
        by (simp add: bold.simps(2) [of m "f # k"])
      with d' f show ?thesis
        by (simp add: x' plain_line_def)
    next
      case (Some y)
      then have "bold (m # f # k) = lit ''<strong>'' @ fst y @ lit ''</strong>'' @ bold (snd y)"
        by (cases y) (simp add: bold.simps(2) [of m "f # k"])
      then show ?thesis
        by (simp add: x' f plain_line_def lit_def is_marker_def)
    qed
  qed
qed

lemma bullet_line_no_lf:
  assumes "0x0A \<notin> set l"
  shows "0x0A \<notin> set (bullet_line l)"
proof (cases "item_rest l")
  case None
  with assms show ?thesis by (simp add: bullet_line_def)
next
  case (Some r)
  from item_rest_shape [OF Some] assms have "0x0A \<notin> set r" by auto
  with Some show ?thesis by (simp add: bullet_line_def)
qed

lemma bullet_line_formatted:
  assumes "item_rest l \<noteq> None \<or> plain_line l"
  shows "bullet_line (bold (escape_text l)) = format_line l"
proof (cases "item_rest l")
  case (Some r)
  then show ?thesis
    by (simp add: bullet_line_def format_line_def item_line_formatted)
next
  case None
  with assms have "plain_line l" by simp
  then have "item_rest (bold (escape_text l)) = None"
    by (intro plain_not_item plain_line_formatted)
  with None show ?thesis
    by (simp add: bullet_line_def format_line_def)
qed

lemma liteMarkdown_lines:
  assumes "\<forall>l \<in> set ls. 0x0A \<notin> set l \<and> (item_rest l \<noteq> None \<or> plain_line l)"
  shows "liteMarkdown (Str (join_with [0x0A] ls)) = Inr (join_with (lit ''<br>'') (map format_line ls))"
proof -
  let ?ks = "map (\<lambda>l. bold (escape_text l)) ls"
  have k: "\<forall>k \<in> set ?ks. 0x0A \<notin> set k \<and> (item_rest k \<noteq> None \<or> plain_line k)"
  proof
    fix k assume "k \<in> set ?ks"
    then obtain l where l: "l \<in> set ls" "k = bold (escape_text l)" by auto
    with assms have a: "0x0A \<notin> set l" "item_rest l \<noteq> None \<or> plain_line l" by auto
    from a(1) have "0x0A \<notin> set k"
      unfolding l(2) by (intro bold_no_lf escape_text_no_lf)
    moreover from a(2) have "item_rest k \<noteq> None \<or> plain_line k"
      unfolding l(2) using item_line_formatted [of l] plain_line_formatted [of l] by auto
    ultimately show "0x0A \<notin> set k \<and> (item_rest k \<noteq> None \<or> plain_line k)" ..
  qed
  have f: "map bullet_line ?ks = map format_line ls"
    using assms by (simp add: bullet_line_formatted)
  have n: "\<forall>j \<in> set (map bullet_line ?ks). 0x0A \<notin> set j"
  proof
    fix j assume "j \<in> set (map bullet_line ?ks)"
    then obtain k where "k \<in> set ?ks" "j = bullet_line k" by auto
    with k show "0x0A \<notin> set j"
      using bullet_line_no_lf [of k] by blast
  qed
  have "bold (escape_text (join_with [0x0A] ls)) = join_with [0x0A] ?ks"
    by (simp add: escape_text_join bold_join comp_def)
  then have "bullets (bold (escape_text (join_with [0x0A] ls))) = join_with [0x0A] (map bullet_line ?ks)"
    using bullets_join [OF k] by simp
  then have "breaks (bullets (bold (escape_text (join_with [0x0A] ls))))
      = join_with (lit ''<br>'') (map bullet_line ?ks)"
    using breaks_join [OF n] by simp
  then show ?thesis
    by (simp only: liteMarkdown_Str f)
qed
text \<open>
  C6 as the spec has it does not hold: a line that starts with a marker gets its bullet
  only where white space and then some other character follow the marker. \<^verbatim>\<open>-a\<close> stays as
  it is, \<^verbatim>\<open>**b**\<close> becomes a bold span, and in \<^verbatim>\<open>-\<close>, line feed, \<^verbatim>\<open>- b\<close> the line feed is
  the white space after the first marker, so that the second line is the rest of the first.
\<close>

theorem marker_without_space_counterexample:
  "liteMarkdown (Str (lit ''-a'')) = Inr (lit ''-a'')
   \<and> liteMarkdown (Str (lit ''**b**'')) = Inr (lit ''<strong>b</strong>'')
   \<and> liteMarkdown (Str (lit ''-\<newline>- b'')) = Inr ([0x2022] @ lit '' - b'')"
proof -
  have "liteMarkdown (Str (lit ''-a'')) = Inr (lit ''-a'')"
    by code_simp
  moreover have "liteMarkdown (Str (lit ''**b**'')) = Inr (lit ''<strong>b</strong>'')"
    by code_simp
  moreover have "liteMarkdown (Str (lit ''-\<newline>- b'')) = Inr ([0x2022] @ lit '' - b'')"
    by code_simp
  ultimately show ?thesis by blast
qed

text \<open>
  C6, amended. Take a text whose lines (what stands between its line feeds) are each an
  item line (a marker \<^verbatim>\<open>-\<close> or \<^verbatim>\<open>*\<close>, one or more white-space characters, and a rest that
  starts with another character) or a plain line (empty, or starting with no marker, or
  with a marker and then a character that is no white space). Then \<^verbatim>\<open>liteMarkdown\<close> gives
  the formatted lines joined by \<^verbatim>\<open><br>\<close>: for every item line, the first included, the
  bullet glyph and one space for the marker and its white space, followed by the rest of the
  line, escaped and with its bold spans converted; a plain line is only escaped and
  bold-converted. So \<^verbatim>\<open>- a\<close>, line feed, \<^verbatim>\<open>- b\<close> gives two bullet lines.
\<close>

theorem bullet_lines:
  "((\<forall>l \<in> set ls. 0x0A \<notin> set l \<and> (item_rest l \<noteq> None \<or> plain_line l)) \<longrightarrow>
      liteMarkdown (Str (join_with [0x0A] ls))
        = Inr (join_with (lit ''<br>'') (map format_line ls)))
   \<and> (item_rest l = Some r \<longrightarrow> format_line l = [0x2022, 0x20] @ bold (escape_text r))
   \<and> (item_rest l = None \<longrightarrow> format_line l = bold (escape_text l))
   \<and> liteMarkdown (Str (lit ''- a\<newline>- b'')) = Inr ([0x2022] @ lit '' a<br>'' @ [0x2022] @ lit '' b'')"
proof -
  have "liteMarkdown (Str (lit ''- a\<newline>- b'')) = Inr ([0x2022] @ lit '' a<br>'' @ [0x2022] @ lit '' b'')"
    by code_simp
  then show ?thesis
    using liteMarkdown_lines [of ls] by (simp add: format_line_def)
qed

theorem bullet_lines_witness:
  "liteMarkdown (Str (lit ''- a\<newline>x<y\<newline>*  **b**''))
     = Inr ([0x2022] @ lit '' a<br>x&lt;y<br>'' @ [0x2022] @ lit '' <strong>b</strong>'')"
proof -
  let ?ls = "[lit ''- a'', lit ''x<y'', lit ''*  **b**'']"
  have h: "\<forall>l \<in> set ?ls. 0x0A \<notin> set l \<and> (item_rest l \<noteq> None \<or> plain_line l)"
    by code_simp
  have j: "join_with [0x0A] ?ls = lit ''- a\<newline>x<y\<newline>*  **b**''"
    by code_simp
  have f: "join_with (lit ''<br>'') (map format_line ?ls)
      = [0x2022] @ lit '' a<br>x&lt;y<br>'' @ [0x2022] @ lit '' <strong>b</strong>''"
    by code_simp
  from bullet_lines [of ?ls "[]" "[]"] h
  have "liteMarkdown (Str (join_with [0x0A] ?ls)) = Inr (join_with (lit ''<br>'') (map format_line ?ls))"
    by blast
  then show ?thesis
    by (simp only: j f)
qed


section \<open>The four replacements\<close>

lemma bold_star_free_prefix: "0x2A \<notin> set a \<Longrightarrow> bold (a @ x) = a @ bold x"
  by (induction a) (simp_all add: bold_not_star)

lemma bold_star_free: "0x2A \<notin> set a \<Longrightarrow> bold a = a"
  using bold_star_free_prefix [of a "[]"] by (simp add: bold.simps(1))

lemma bold_close_group:
  "0x2A \<notin> set g \<Longrightarrow> \<forall>c \<in> set g. \<not> is_LT c
   \<Longrightarrow> bold_close acc (g @ 0x2A # 0x2A # b) = Some (acc @ g, b)"
  by (induction g arbitrary: acc) simp_all

lemma bold_group:
  assumes "g \<noteq> []" "0x2A \<notin> set g" "\<forall>c \<in> set g. \<not> is_LT c"
  shows "bold (lit ''**'' @ g @ lit ''**'' @ b) = lit ''<strong>'' @ g @ lit ''</strong>'' @ bold b"
proof -
  from assms(1) obtain c t where g: "g = c # t" by (cases g) auto
  with assms have "\<not> is_LT c" "0x2A \<notin> set t" "\<forall>c \<in> set t. \<not> is_LT c" by auto
  then have "bold_match (0x2A # 0x2A # c # t @ 0x2A # 0x2A # b) = Some (c # t, b)"
    using bold_close_group [of t "[c]" b] by simp
  then have "bold (0x2A # 0x2A # c # t @ 0x2A # 0x2A # b)
      = lit ''<strong>'' @ (c # t) @ lit ''</strong>'' @ bold b"
    by (simp add: bold.simps(2) [of "0x2A" "0x2A # c # t @ 0x2A # 0x2A # b"])
  then show ?thesis
    by (simp add: g lit_def)
qed

lemma breaks_free: "0x0A \<notin> set (breaks x)"
  by (induction x) (auto simp: breaks_def lit_def)

lemma escape_unit_other: "c \<noteq> 0x26 \<Longrightarrow> c \<noteq> 0x3C \<Longrightarrow> c \<noteq> 0x3E \<Longrightarrow> escape_unit c = [c]"
  by (simp add: escape_unit_def)

text \<open>
  C5. On every string \<^verbatim>\<open>liteMarkdown\<close> (the spec's formatContent) is the four replacements
  in this order, and each of them does its work on what the one before has left:

    \<^item> the escape replaces each \<^verbatim>\<open>&\<close>, \<^verbatim>\<open><\<close>, \<^verbatim>\<open>>\<close> by its entity and keeps every other
      character, so that no \<^verbatim>\<open><\<close> or \<^verbatim>\<open>>\<close> of the input is left;
    \<^item> the bold replacement keeps the text before the first \<^verbatim>\<open>*\<close> and turns a group between
      two \<^verbatim>\<open>**\<close> (not empty, with no \<^verbatim>\<open>*\<close> and no line end in it) into a
      \<^verbatim>\<open><strong>\<close> element, and goes on after it;
    \<^item> the bullet replacement, on a text whose lines are item lines or plain lines, puts
      the bullet and one space for the marker and the white space of every item line and
      keeps the plain lines and the line feeds;
    \<^item> the last replacement puts \<^verbatim>\<open><br>\<close> for every line feed, so that none is left.

  \<^verbatim>\<open>**bold**\<close> gives \<^verbatim>\<open><strong>bold</strong>\<close>, \<^verbatim>\<open><script>\<close> gives \<^verbatim>\<open>&lt;script&gt;\<close>,
  and \<^verbatim>\<open>- a\<close>, line feed, \<^verbatim>\<open>- b\<close> gives two bullet lines with \<^verbatim>\<open><br>\<close> between them. The
  order shows in \<^verbatim>\<open>**<**\<close> (the tags of the bold span are not escaped, its content is) and
  in \<^verbatim>\<open>a\<close>, line feed, \<^verbatim>\<open>- b\<close> (the second line is still a line when the bullets are set).
\<close>

theorem liteMarkdown_order:
  "liteMarkdown (Str s) = Inr (breaks (bullets (bold (escape_text s))))
   \<and> escapeHTML (Str s) = Inr (escape_text s)
   \<and> escape_text s = concat (map escape_unit s)
   \<and> escape_unit 0x26 = lit ''&amp;'' \<and> escape_unit 0x3C = lit ''&lt;''
   \<and> escape_unit 0x3E = lit ''&gt;''
   \<and> (c \<noteq> 0x26 \<and> c \<noteq> 0x3C \<and> c \<noteq> 0x3E \<longrightarrow> escape_unit c = [c])
   \<and> 0x3C \<notin> set (escape_text s) \<and> 0x3E \<notin> set (escape_text s)
   \<and> (0x2A \<notin> set a \<longrightarrow> bold a = a)
   \<and> (0x2A \<notin> set a \<and> g \<noteq> [] \<and> 0x2A \<notin> set g \<and> (\<forall>c \<in> set g. \<not> is_LT c) \<longrightarrow>
        bold (a @ lit ''**'' @ g @ lit ''**'' @ b)
          = a @ lit ''<strong>'' @ g @ lit ''</strong>'' @ bold b)
   \<and> ((\<forall>k \<in> set ks. 0x0A \<notin> set k \<and> (item_rest k \<noteq> None \<or> plain_line k)) \<longrightarrow>
        bullets (join_with [0x0A] ks) = join_with [0x0A] (map bullet_line ks))
   \<and> (item_rest k = Some r \<longrightarrow> bullet_line k = [0x2022, 0x20] @ r)
   \<and> (item_rest k = None \<longrightarrow> bullet_line k = k)
   \<and> ((\<forall>j \<in> set js. 0x0A \<notin> set j) \<longrightarrow>
        breaks (join_with [0x0A] js) = join_with (lit ''<br>'') js)
   \<and> 0x0A \<notin> set (breaks x)
   \<and> (liteMarkdown (Str s) = Inr out \<longrightarrow> 0x0A \<notin> set out)
   \<and> liteMarkdown (Str (lit ''**bold**'')) = Inr (lit ''<strong>bold</strong>'')
   \<and> liteMarkdown (Str (lit ''<script>'')) = Inr (lit ''&lt;script&gt;'')
   \<and> liteMarkdown (Str (lit ''- a\<newline>- b'')) = Inr ([0x2022] @ lit '' a<br>'' @ [0x2022] @ lit '' b'')
   \<and> liteMarkdown (Str (lit ''**<**'')) = Inr (lit ''<strong>&lt;</strong>'')
   \<and> liteMarkdown (Str (lit ''a\<newline>- b'')) = Inr (lit ''a<br>'' @ [0x2022] @ lit '' b'')"
proof -
  have e1: "escapeHTML (Str s) = Inr (escape_text s)"
    by (simp add: escapeHTML_def js_or_def escape_text_def)
  have e2: "escape_text s = concat (map escape_unit s)"
    by (simp add: escape_text_def)
  have e3: "escape_unit 0x26 = lit ''&amp;''" "escape_unit 0x3C = lit ''&lt;''"
    "escape_unit 0x3E = lit ''&gt;''"
    by (simp_all add: escape_unit_def)
  have e4: "c \<noteq> 0x26 \<and> c \<noteq> 0x3C \<and> c \<noteq> 0x3E \<longrightarrow> escape_unit c = [c]"
    by (simp add: escape_unit_other)
  have b1: "0x2A \<notin> set a \<longrightarrow> bold a = a"
    by (simp add: bold_star_free)
  have b2: "bold (a @ lit ''**'' @ g @ lit ''**'' @ b)
      = a @ lit ''<strong>'' @ g @ lit ''</strong>'' @ bold b"
    if "0x2A \<notin> set a \<and> g \<noteq> [] \<and> 0x2A \<notin> set g \<and> (\<forall>c \<in> set g. \<not> is_LT c)"
  proof -
    from that have "bold (a @ lit ''**'' @ g @ lit ''**'' @ b) = a @ bold (lit ''**'' @ g @ lit ''**'' @ b)"
      by (intro bold_star_free_prefix) simp
    also from that have "bold (lit ''**'' @ g @ lit ''**'' @ b)
        = lit ''<strong>'' @ g @ lit ''</strong>'' @ bold b"
      by (intro bold_group) simp_all
    finally show ?thesis .
  qed
  have u1: "bullets (join_with [0x0A] ks) = join_with [0x0A] (map bullet_line ks)"
    if "\<forall>k \<in> set ks. 0x0A \<notin> set k \<and> (item_rest k \<noteq> None \<or> plain_line k)"
    using that by (rule bullets_join)
  have u2: "item_rest k = Some r \<longrightarrow> bullet_line k = [0x2022, 0x20] @ r"
    "item_rest k = None \<longrightarrow> bullet_line k = k"
    by (simp_all add: bullet_line_def)
  have r1: "breaks (join_with [0x0A] js) = join_with (lit ''<br>'') js"
    if "\<forall>j \<in> set js. 0x0A \<notin> set j"
    using that by (rule breaks_join)
  have r2: "liteMarkdown (Str s) = Inr out \<longrightarrow> 0x0A \<notin> set out"
    by (auto simp: liteMarkdown_Str breaks_free)
  have x1: "liteMarkdown (Str (lit ''**bold**'')) = Inr (lit ''<strong>bold</strong>'')"
    by code_simp
  have x2: "liteMarkdown (Str (lit ''<script>'')) = Inr (lit ''&lt;script&gt;'')"
    by code_simp
  have x3: "liteMarkdown (Str (lit ''- a\<newline>- b'')) = Inr ([0x2022] @ lit '' a<br>'' @ [0x2022] @ lit '' b'')"
    by code_simp
  have x4: "liteMarkdown (Str (lit ''**<**'')) = Inr (lit ''<strong>&lt;</strong>'')"
    by code_simp
  have x5: "liteMarkdown (Str (lit ''a\<newline>- b'')) = Inr (lit ''a<br>'' @ [0x2022] @ lit '' b'')"
    by code_simp
  from liteMarkdown_Str [of s] e1 e2 e3 e4 escape_text_no_angle [of s] b1 b2 u1 u2 r1
    breaks_free [of x] r2 x1 x2 x3 x4 x5
  show ?thesis
    by blast
qed

theorem liteMarkdown_order_witness:
  "liteMarkdown (Str (lit ''- **a**\<newline>x<y''))
     = Inr ([0x2022] @ lit '' <strong>a</strong><br>x&lt;y'')
   \<and> escape_text (lit ''- **a**\<newline>x<y'') = lit ''- **a**\<newline>x&lt;y''
   \<and> bold (lit ''- **a**\<newline>x&lt;y'') = lit ''- <strong>a</strong>\<newline>x&lt;y''
   \<and> bullets (lit ''- <strong>a</strong>\<newline>x&lt;y'')
     = [0x2022] @ lit '' <strong>a</strong>\<newline>x&lt;y''
   \<and> breaks ([0x2022] @ lit '' <strong>a</strong>\<newline>x&lt;y'')
     = [0x2022] @ lit '' <strong>a</strong><br>x&lt;y''"
proof -
  let ?s = "lit ''- **a**\<newline>x<y''"
  let ?a = "lit ''- ''" and ?g = "lit ''a''" and ?b = "lit ''\<newline>x&lt;y''"
  let ?ks = "[lit ''- <strong>a</strong>'', lit ''x&lt;y'']"
  let ?js = "[[0x2022] @ lit '' <strong>a</strong>'', lit ''x&lt;y'']"
  note t = liteMarkdown_order [of ?s "0x61" ?a ?g ?b ?ks "lit ''- <strong>a</strong>''"
      "lit ''<strong>a</strong>''" ?js "[]" "[]"]
  note t' = liteMarkdown_order [of ?s "0x61" ?b ?g ?b ?ks "lit ''x&lt;y''" "[]" ?js "[]" "[]"]
  have e: "concat (map escape_unit ?s) = lit ''- **a**\<newline>x&lt;y''"
    by code_simp
  have ha: "0x2A \<notin> set ?a \<and> ?g \<noteq> [] \<and> 0x2A \<notin> set ?g \<and> (\<forall>c \<in> set ?g. \<not> is_LT c)"
    by code_simp
  have hb: "0x2A \<notin> set ?b"
    by code_simp
  have hk: "\<forall>k \<in> set ?ks. 0x0A \<notin> set k \<and> (item_rest k \<noteq> None \<or> plain_line k)"
    by code_simp
  have hi: "item_rest (lit ''- <strong>a</strong>'') = Some (lit ''<strong>a</strong>'')"
    by code_simp
  have hp: "item_rest (lit ''x&lt;y'') = None"
    by code_simp
  have hj: "\<forall>j \<in> set ?js. 0x0A \<notin> set j"
    by code_simp
  from t have 0: "liteMarkdown (Str ?s) = Inr (breaks (bullets (bold (escape_text ?s))))"
    by blast
  from t e have 1: "escape_text ?s = lit ''- **a**\<newline>x&lt;y''"
    by simp
  from t ha have "bold (?a @ lit ''**'' @ ?g @ lit ''**'' @ ?b)
      = ?a @ lit ''<strong>'' @ ?g @ lit ''</strong>'' @ bold ?b"
    by blast
  moreover from t' hb have "bold ?b = ?b"
    by blast
  ultimately have 2: "bold (lit ''- **a**\<newline>x&lt;y'') = lit ''- <strong>a</strong>\<newline>x&lt;y''"
    by (simp add: lit_def)
  from t hk have "bullets (join_with [0x0A] ?ks) = join_with [0x0A] (map bullet_line ?ks)"
    by blast
  moreover from t hi have "bullet_line (lit ''- <strong>a</strong>'') = [0x2022, 0x20] @ lit ''<strong>a</strong>''"
    by blast
  moreover from t' hp have "bullet_line (lit ''x&lt;y'') = lit ''x&lt;y''"
    by blast
  ultimately have 3: "bullets (lit ''- <strong>a</strong>\<newline>x&lt;y'')
      = [0x2022] @ lit '' <strong>a</strong>\<newline>x&lt;y''"
    by (simp add: lit_def)
  from t hj have "breaks (join_with [0x0A] ?js) = join_with (lit ''<br>'') ?js"
    by blast
  then have 4: "breaks ([0x2022] @ lit '' <strong>a</strong>\<newline>x&lt;y'')
      = [0x2022] @ lit '' <strong>a</strong><br>x&lt;y''"
    by (simp add: lit_def)
  from 0 1 2 3 4 show ?thesis
    by simp
qed

end
